theory Spec2Isabelle
  imports Main "HOL-Library.Word"
begin

section \<open>The extension manager server of basequery-go\<close>

text \<open>
  A shallow embedding of \<^verbatim>\<open>server.go\<close> (the registry, the dispatcher \<^verbatim>\<open>Call\<close>,
  \<^verbatim>\<open>Shutdown\<close>, \<^verbatim>\<open>Start\<close> and \<^verbatim>\<open>Run\<close>) and of the mutable table of the example
  extension. Go maps are partial functions, a nil pointer is \<open>None\<close>, an \<^verbatim>\<open>error\<close> is
  the text of its message (\<open>None\<close> is the nil error), and a panic is an outcome of its
  own that carries the state reached when the panic was raised.
\<close>

subsection \<open>Outcomes, errors and formatting\<close>

type_synonym error = string

text \<open>
  A panic is either raised by the code with a message (\<^verbatim>\<open>panic(msg)\<close>) or by the Go
  runtime: a store into a nil map, an index or a slice bound out of range, a failed type
  assertion, a nil pointer dereferenced.
\<close>

datatype panic =
    Panic string
  | NilMapAssignment
  | IndexOutOfRange
  | SliceBoundsOutOfRange
  | InterfaceConversion
  | NilDereference

datatype ('r, 's) outcome = Returns 'r 's | Panics panic 's

fun state_of :: "('r, 's) outcome \<Rightarrow> 's" where
  "state_of (Returns r s) = s"
| "state_of (Panics m s) = s"

fun panicked :: "('r, 's) outcome \<Rightarrow> bool" where
  "panicked (Returns r s) = False"
| "panicked (Panics m s) = True"

text \<open>\<^verbatim>\<open>errors.Wrap(err, msg)\<close>: the message of the wrapped error is \<^verbatim>\<open>msg: err\<close>.\<close>

definition Wrap :: "error \<Rightarrow> string \<Rightarrow> error" where
  "Wrap err msg = msg @ '': '' @ err"

text \<open>The verb \<^verbatim>\<open>%d\<close> of \<^verbatim>\<open>fmt\<close>: a signed integer in decimal.\<close>

definition digit_char :: "nat \<Rightarrow> char" where
  "digit_char d = ''0123456789'' ! d"

fun decimal :: "nat \<Rightarrow> string" where
  "decimal n = (if n < 10 then [digit_char n] else decimal (n div 10) @ [digit_char (n mod 10)])"

declare decimal.simps [simp del]

definition Sprintf_d :: "int \<Rightarrow> string" where
  "Sprintf_d i = (if i < 0 then CHR ''-'' # decimal (nat (- i)) else decimal (nat i))"

subsection \<open>Requests, responses and plugins\<close>

text \<open>
  Modelled from the spec: the generated package \<^verbatim>\<open>gen/osquery\<close> is not among the
  sources. A request is a mapping from string keys to string values, a result set is an
  ordered sequence of string-keyed rows, a status has a code (\<^verbatim>\<open>int32\<close>), a message and
  the UUID (\<^verbatim>\<open>int64\<close>) that the host assigns at registration.
\<close>

type_synonym ExtensionPluginRequest = "string \<rightharpoonup> string"

type_synonym ExtensionPluginResponse = "(string \<rightharpoonup> string) list"

record ExtensionStatus =
  Code :: "32 word"
  Message :: string
  UUID :: "64 word"

record ExtensionResponse =
  Status :: "ExtensionStatus option"
  Response :: ExtensionPluginResponse

text \<open>
  The interface \<^verbatim>\<open>Plugin\<close>. \<open>PluginCall\<close> is the method \<^verbatim>\<open>Call\<close> of the plugin and
  \<open>PluginPing\<close> its \<^verbatim>\<open>Ping\<close> (the server has methods of the same names); the context
  argument carries nothing the server reads. \<^verbatim>\<open>Shutdown()\<close> of a plugin is never called
  by the server.
\<close>

record Plugin =
  Name :: string
  RegistryName :: string
  Routes :: ExtensionPluginResponse
  PluginPing :: ExtensionStatus
  PluginCall :: "ExtensionPluginRequest \<Rightarrow> ExtensionResponse"

subsection \<open>The server\<close>

text \<open>
  The metric vectors of the Prometheus client, by label values (plugin name, action):
  a counter counts its \<^verbatim>\<open>Inc()\<close> calls, a gauge holds the last value \<^verbatim>\<open>Set\<close>, and a
  histogram is modelled by the number of observations (the observed duration is wall-clock
  time and is left out).
\<close>

type_synonym CounterVec = "string \<times> string \<Rightarrow> nat"
type_synonym GaugeVec = "string \<times> string \<Rightarrow> nat"
type_synonym HistogramVec = "string \<times> string \<Rightarrow> nat"

type_synonym Duration = int

datatype TServerTransport = ServerSocket string

datatype TServer = TSimpleServer2 TServerTransport

datatype http_Server = HttpServer string

text \<open>
  The struct \<^verbatim>\<open>ExtensionManagerServer\<close>. The client \<^verbatim>\<open>serverClient\<close> is the connection
  to the host, whose answers are parameters of the functions that use it; \<^verbatim>\<open>mutex\<close> is
  taken and released inside each method, which makes every method one atomic step.
\<close>

record ExtensionManagerServer =
  name :: string
  version :: string
  sockPath :: string
  registry :: "string \<rightharpoonup> (string \<rightharpoonup> Plugin)"
  promServer :: "http_Server option"
  pluginCounter :: "CounterVec option"
  pluginGauge :: "GaugeVec option"
  pluginTime :: "HistogramVec option"
  server :: "TServer option"
  transport :: "TServerTransport option"
  timeout :: Duration
  pingInterval :: Duration
  prometheusPort :: "16 word"
  started :: bool

definition defaultTimeout :: Duration where
  "defaultTimeout = 1 * 1000000000"

definition defaultPingInterval :: Duration where
  "defaultPingInterval = 5 * 1000000000"

text \<open>
  \<^verbatim>\<open>validRegistryNames\<close>, a map literal with four keys; reading a key that is absent
  gives \<^verbatim>\<open>false\<close>.
\<close>

definition validRegistryNames :: "(string \<times> bool) list" where
  "validRegistryNames =
     [(''table'', True), (''logger'', True), (''config'', True), (''distributed'', True)]"

definition validRegistryName :: "string \<Rightarrow> bool" where
  "validRegistryName r = (case map_of validRegistryNames r of None \<Rightarrow> False | Some b \<Rightarrow> b)"

type_synonym ServerOption = "ExtensionManagerServer \<Rightarrow> ExtensionManagerServer"

definition ServerVersion :: "string \<Rightarrow> ServerOption" where
  "ServerVersion v = (\<lambda>s. s\<lparr>version := v\<rparr>)"

definition ServerTimeout :: "Duration \<Rightarrow> ServerOption" where
  "ServerTimeout t = (\<lambda>s. s\<lparr>timeout := t\<rparr>)"

definition ServerPingInterval :: "Duration \<Rightarrow> ServerOption" where
  "ServerPingInterval i = (\<lambda>s. s\<lparr>pingInterval := i\<rparr>)"

definition ServerPrometheusPort :: "16 word \<Rightarrow> ServerOption" where
  "ServerPrometheusPort p = (\<lambda>s. s\<lparr>prometheusPort := p\<rparr>)"

text \<open>
  \<^verbatim>\<open>NewExtensionManagerServer\<close>: one empty inner map for each valid registry name, the
  defaults, the options in order, then the client; \<open>NewClient\<close> is the outcome of
  connecting to the socket (\<open>Some err\<close> when it fails).
\<close>

definition NewExtensionManagerServer ::
  "string \<Rightarrow> string \<Rightarrow> ServerOption list \<Rightarrow> (string \<Rightarrow> Duration \<Rightarrow> error option)
    \<Rightarrow> error + ExtensionManagerServer" where
  "NewExtensionManagerServer nm path opts NewClient =
     (let reg = fold (\<lambda>r m. m(r \<mapsto> Map.empty)) (map fst validRegistryNames) Map.empty;
          manager = \<lparr>name = nm, version = [], sockPath = path, registry = reg,
                     promServer = None, pluginCounter = None, pluginGauge = None,
                     pluginTime = None, server = None, transport = None,
                     timeout = defaultTimeout, pingInterval = defaultPingInterval,
                     prometheusPort = 0, started = False\<rparr>;
          manager = fold (\<lambda>opt m. opt m) opts manager
      in case NewClient path (timeout manager) of
           Some err \<Rightarrow> Inl err
         | None \<Rightarrow> Inr manager)"

text \<open>
  \<^verbatim>\<open>RegisterPlugin\<close>: the loop over the arguments. The check is made for each plugin as
  its turn comes, so a panic leaves the plugins before it inserted. Storing into the inner
  map of a registry name that has none is Go's assignment to an entry of a nil map.
\<close>

fun RegisterPlugin ::
  "ExtensionManagerServer \<Rightarrow> Plugin list \<Rightarrow> (unit, ExtensionManagerServer) outcome" where
  "RegisterPlugin s [] = Returns () s"
| "RegisterPlugin s (plugin # plugins) =
     (if \<not> validRegistryName (RegistryName plugin)
      then Panics (Panic (''invalid registry name: '' @ RegistryName plugin)) s
      else case registry s (RegistryName plugin) of
             None \<Rightarrow> Panics NilMapAssignment s
           | Some subreg \<Rightarrow>
               RegisterPlugin
                 (s\<lparr>registry := (registry s)(RegistryName plugin \<mapsto> subreg(Name plugin \<mapsto> plugin))\<rparr>)
                 plugins)"

text \<open>Successive calls of \<^verbatim>\<open>RegisterPlugin\<close>; a panic ends the sequence.\<close>

fun RegisterPlugin_calls ::
  "ExtensionManagerServer \<Rightarrow> Plugin list list \<Rightarrow> (unit, ExtensionManagerServer) outcome" where
  "RegisterPlugin_calls s [] = Returns () s"
| "RegisterPlugin_calls s (plugins # rest) =
     (case RegisterPlugin s plugins of
        Returns u s' \<Rightarrow> RegisterPlugin_calls s' rest
      | Panics m s' \<Rightarrow> Panics m s')"

text \<open>
  The two map reads at the head of \<^verbatim>\<open>Call\<close> (\<^verbatim>\<open>s.registry[registry]\<close>, then
  \<^verbatim>\<open>subreg[item]\<close>), with their three outcomes.
\<close>

datatype lookup = UnknownRegistry | UnknownItem | Found Plugin

definition Lookup :: "ExtensionManagerServer \<Rightarrow> string \<Rightarrow> string \<Rightarrow> lookup" where
  "Lookup s reg item =
     (case registry s reg of
        None \<Rightarrow> UnknownRegistry
      | Some subreg \<Rightarrow> (case subreg item of None \<Rightarrow> UnknownItem | Some plugin \<Rightarrow> Found plugin))"

text \<open>
  What a call of the method \<^verbatim>\<open>Call\<close> yields: the response and the error it returns, the
  plugin calls it made (plugin and request, in order), and the server afterwards.
\<close>

record CallResult =
  response :: ExtensionResponse
  err :: "error option"
  invoked :: "(Plugin \<times> ExtensionPluginRequest) list"
  after :: ExtensionManagerServer

text \<open>\<^verbatim>\<open>request["action"]\<close>: the empty string when the key is absent.\<close>

definition action :: "ExtensionPluginRequest \<Rightarrow> string" where
  "action request = (case request ''action'' of None \<Rightarrow> [] | Some a \<Rightarrow> a)"

definition Inc :: "CounterVec \<Rightarrow> string \<times> string \<Rightarrow> CounterVec" where
  "Inc c l = c(l := c l + 1)"

definition Set_gauge :: "GaugeVec \<Rightarrow> string \<times> string \<Rightarrow> nat \<Rightarrow> GaugeVec" where
  "Set_gauge g l v = g(l := v)"

definition ObserveDuration :: "HistogramVec \<Rightarrow> string \<times> string \<Rightarrow> HistogramVec" where
  "ObserveDuration h l = h(l := h l + 1)"

definition unknown :: "string \<Rightarrow> ExtensionResponse" where
  "unknown msg = \<lparr>Status = Some \<lparr>Code = 1, Message = msg, UUID = 0\<rparr>, Response = []\<rparr>"

definition Call ::
  "ExtensionManagerServer \<Rightarrow> string \<Rightarrow> string \<Rightarrow> ExtensionPluginRequest \<Rightarrow> CallResult" where
  "Call s reg item request =
     (case registry s reg of
        None \<Rightarrow>
          \<lparr>response = unknown (''Unknown registry: '' @ reg), err = None, invoked = [], after = s\<rparr>
      | Some subreg \<Rightarrow>
          (case subreg item of
             None \<Rightarrow>
               \<lparr>response = unknown (''Unknown registry item: '' @ item), err = None,
                invoked = [], after = s\<rparr>
           | Some plugin \<Rightarrow>
               (let s1 = (case pluginCounter s of
                            None \<Rightarrow> s
                          | Some c \<Rightarrow> s\<lparr>pluginCounter := Some (Inc c (item, action request))\<rparr>);
                    resp = PluginCall plugin request;
                    s2 = (case pluginGauge s1 of
                            None \<Rightarrow> s1
                          | Some g \<Rightarrow>
                              s1\<lparr>pluginGauge :=
                                   Some (Set_gauge g (item, action request) (length (Response resp)))\<rparr>);
                    s3 = (case pluginTime s2 of
                            None \<Rightarrow> s2
                          | Some h \<Rightarrow>
                              s2\<lparr>pluginTime := Some (ObserveDuration h (item, action request))\<rparr>)
                in \<lparr>response = resp, err = None, invoked = [(plugin, request)], after = s3\<rparr>)))"

text \<open>
  \<^verbatim>\<open>Shutdown\<close>: the handle is cleared and \<^verbatim>\<open>Stop\<close> of the old handle is left to a
  goroutine of its own. The result is the error returned (always nil), the servers handed
  to such goroutines, and the server afterwards.
\<close>

definition Shutdown ::
  "ExtensionManagerServer \<Rightarrow> error option \<times> TServer list \<times> ExtensionManagerServer" where
  "Shutdown s =
     (case server s of
        Some srv \<Rightarrow> (None, [srv], s\<lparr>server := None\<rparr>)
      | None \<Rightarrow> (None, [], s))"

text \<open>The options that the package exports; no other code can set the fields of a server.\<close>

inductive exported_option :: "ServerOption \<Rightarrow> bool" where
  "exported_option (ServerVersion v)"
| "exported_option (ServerTimeout t)"
| "exported_option (ServerPingInterval i)"
| "exported_option (ServerPrometheusPort p)"

text \<open>
  The plugin registered last under a registry name and a plugin name, among the plugins
  registered so far in the order of their registration.
\<close>

definition last_registered :: "string \<Rightarrow> string \<Rightarrow> Plugin list \<Rightarrow> Plugin option" where
  "last_registered C N plugins = find (\<lambda>p. RegistryName p = C \<and> Name p = N) (rev plugins)"

text \<open>Every valid registry name has its inner map, as the constructor leaves them.\<close>

definition registry_ready :: "ExtensionManagerServer \<Rightarrow> bool" where
  "registry_ready s = list_all (\<lambda>r. registry s r \<noteq> None) (map fst validRegistryNames)"

subsection \<open>An example extension\<close>

text \<open>
  The server that the example extensions construct and plugins in the manner of theirs,
  each answering every request with one fixed response; \<open>misfiled_plugin\<close> names a
  registry that does not exist.
\<close>

definition StatusOK :: ExtensionStatus where
  "StatusOK = \<lparr>Code = 0, Message = ''OK'', UUID = 0\<rparr>"

definition ExampleGenerate :: ExtensionPluginResponse where
  "ExampleGenerate =
     [[''text'' \<mapsto> ''hello world'', ''integer'' \<mapsto> ''123'',
       ''big_int'' \<mapsto> ''-1234567890'', ''double'' \<mapsto> ''3.14159'']]"

definition example_table :: Plugin where
  "example_table =
     \<lparr>Name = ''example_table'', RegistryName = ''table'', Routes = [], PluginPing = StatusOK,
      PluginCall = (\<lambda>request. \<lparr>Status = Some StatusOK, Response = ExampleGenerate\<rparr>)\<rparr>"

definition example_table_empty :: Plugin where
  "example_table_empty =
     \<lparr>Name = ''example_table'', RegistryName = ''table'', Routes = [], PluginPing = StatusOK,
      PluginCall = (\<lambda>request. \<lparr>Status = Some StatusOK, Response = []\<rparr>)\<rparr>"

definition example_config :: Plugin where
  "example_config =
     \<lparr>Name = ''example_config'', RegistryName = ''config'', Routes = [], PluginPing = StatusOK,
      PluginCall = (\<lambda>request. \<lparr>Status = Some StatusOK, Response = [[''config1'' \<mapsto> ''{}'']]\<rparr>)\<rparr>"

definition misfiled_plugin :: Plugin where
  "misfiled_plugin =
     \<lparr>Name = ''example_table'', RegistryName = ''tables'', Routes = [], PluginPing = StatusOK,
      PluginCall = (\<lambda>request. \<lparr>Status = Some StatusOK, Response = []\<rparr>)\<rparr>"

definition example_server :: ExtensionManagerServer where
  "example_server =
     \<lparr>name = ''example_extension'', version = [], sockPath = ''/var/osquery/osquery.em'',
      registry = [''table'' \<mapsto> Map.empty, ''logger'' \<mapsto> Map.empty,
                  ''config'' \<mapsto> Map.empty, ''distributed'' \<mapsto> Map.empty],
      promServer = None, pluginCounter = None, pluginGauge = None, pluginTime = None,
      server = None, transport = None, timeout = 3 * 1000000000,
      pingInterval = 3 * 1000000000, prometheusPort = 3000, started = False\<rparr>"

text \<open>
  The example server after \<^verbatim>\<open>Start\<close> has succeeded: one table plugin registered, the
  listener open under the UUID 7, the metrics created for port 3000.
\<close>

definition serving_server :: ExtensionManagerServer where
  "serving_server =
     example_server
       \<lparr>registry := (registry example_server)
                      (''table'' \<mapsto> [''example_table'' \<mapsto> example_table]),
        promServer := Some (HttpServer '':3000''),
        pluginCounter := Some (\<lambda>l. 0), pluginGauge := Some (\<lambda>l. 0),
        pluginTime := Some (\<lambda>l. 0),
        server := Some (TSimpleServer2 (ServerSocket ''/var/osquery/osquery.em.7'')),
        transport := Some (ServerSocket ''/var/osquery/osquery.em.7''),
        started := True\<rparr>"

subsection \<open>The mutable table of the example extension\<close>

text \<open>
  The values of type \<^verbatim>\<open>interface{}\<close> that a row holds: a \<^verbatim>\<open>float64\<close> (the type
  \<open>'f\<close> stands for it), a string, a boolean, nil, or a value of some other dynamic type,
  given by the name of the type.
\<close>

datatype 'f iface = VFloat64 'f | VString string | VBool bool | VNil | VOther string

text \<open>
  What the table takes from the Go language and from the package \<^verbatim>\<open>fmt\<close>, as
  parameters: the conversion \<^verbatim>\<open>int(x)\<close> of a \<^verbatim>\<open>float64\<close>, and \<^verbatim>\<open>Sprintf\<close> with the
  verbs \<^verbatim>\<open>%v\<close>, \<^verbatim>\<open>%f\<close> and \<^verbatim>\<open>%s\<close> on one value.
\<close>

record 'f fmt =
  to_int :: "'f \<Rightarrow> int"
  Sprintf_v :: "'f iface \<Rightarrow> string"
  Sprintf_f :: "'f iface \<Rightarrow> string"
  Sprintf_s :: "'f iface \<Rightarrow> string"

text \<open>
  The package-level variable \<^verbatim>\<open>mutableData\<close> is the state that the operations pass on;
  \<open>initial_mutableData\<close> is what \<^verbatim>\<open>main\<close> stores in it. The lock \<^verbatim>\<open>lock\<close> is taken
  and released inside each operation, which makes each of them one step.
\<close>

type_synonym mutableData = "(string \<rightharpoonup> string) list"

definition initial_mutableData :: mutableData where
  "initial_mutableData =
     [[''i'' \<mapsto> ''1234'', ''b'' \<mapsto> ''12345678900'', ''d'' \<mapsto> ''1.2345'', ''t'' \<mapsto> ''hello''],
      [''i'' \<mapsto> ''-1234'', ''b'' \<mapsto> ''-12345678900'', ''d'' \<mapsto> ''-1.2345'',
       ''t'' \<mapsto> ''world'']]"

text \<open>An index expression \<^verbatim>\<open>xs[i]\<close> and the type assertion \<^verbatim>\<open>v.(float64)\<close>.\<close>

definition index :: "'a list \<Rightarrow> int \<Rightarrow> panic + 'a" where
  "index xs i = (if 0 \<le> i \<and> i < int (length xs) then Inr (xs ! nat i) else Inl IndexOutOfRange)"

definition assert_float64 :: "'f iface \<Rightarrow> panic + 'f" where
  "assert_float64 v = (case v of VFloat64 x \<Rightarrow> Inr x | _ \<Rightarrow> Inl InterfaceConversion)"

text \<open>
  The first statement of \<^verbatim>\<open>MutableInsert\<close> and of \<^verbatim>\<open>MutableUpdate\<close>,
  \<^verbatim>\<open>id := fmt.Sprintf("%d", int(row[0].(float64)))\<close>, and the map literal that both build
  from \<^verbatim>\<open>id\<close>, \<^verbatim>\<open>row[1]\<close>, \<^verbatim>\<open>row[2]\<close> and \<^verbatim>\<open>row[3]\<close>.
\<close>

definition row_id :: "'f fmt \<Rightarrow> 'f iface list \<Rightarrow> panic + string" where
  "row_id L row =
     (case index row 0 of
        Inl p \<Rightarrow> Inl p
      | Inr v \<Rightarrow> (case assert_float64 v of
                    Inl p \<Rightarrow> Inl p
                  | Inr x \<Rightarrow> Inr (Sprintf_d (to_int L x))))"

definition row_map :: "'f fmt \<Rightarrow> string \<Rightarrow> 'f iface list \<Rightarrow> panic + (string \<rightharpoonup> string)" where
  "row_map L ident row =
     (case index row 1 of
        Inl p \<Rightarrow> Inl p
      | Inr b \<Rightarrow> (case index row 2 of
           Inl p \<Rightarrow> Inl p
         | Inr d \<Rightarrow> (case index row 3 of
              Inl p \<Rightarrow> Inl p
            | Inr t \<Rightarrow> Inr [''i'' \<mapsto> ident, ''b'' \<mapsto> Sprintf_v L b, ''d'' \<mapsto> Sprintf_f L d,
                            ''t'' \<mapsto> Sprintf_s L t])))"

definition MutableGenerate :: "mutableData \<Rightarrow> mutableData \<times> error option" where
  "MutableGenerate mutableData = (mutableData, None)"

definition MutableInsert ::
  "'f fmt \<Rightarrow> mutableData \<Rightarrow> bool \<Rightarrow> 'f iface list
     \<Rightarrow> ((string \<rightharpoonup> string) list \<times> error option, mutableData) outcome" where
  "MutableInsert L mutableData autoRowID row =
     (case row_id L row of
        Inl p \<Rightarrow> Panics p mutableData
      | Inr ident \<Rightarrow> (case row_map L ident row of
           Inl p \<Rightarrow> Panics p mutableData
         | Inr m \<Rightarrow> Returns ([[''id'' \<mapsto> ident, ''status'' \<mapsto> ''success'']], None)
                      (mutableData @ [m])))"

text \<open>
  In \<^verbatim>\<open>MutableUpdate\<close> the right-hand side of the assignment is evaluated before the
  element \<^verbatim>\<open>mutableData[rowID]\<close> is stored, so a row that is too short panics first.
  The row identifier is an \<^verbatim>\<open>int64\<close>, a subrange of \<open>int\<close>.
\<close>

definition MutableUpdate ::
  "'f fmt \<Rightarrow> mutableData \<Rightarrow> int \<Rightarrow> 'f iface list \<Rightarrow> (error option, mutableData) outcome" where
  "MutableUpdate L mutableData rowID row =
     (case row_id L row of
        Inl p \<Rightarrow> Panics p mutableData
      | Inr ident \<Rightarrow> (case row_map L ident row of
           Inl p \<Rightarrow> Panics p mutableData
         | Inr m \<Rightarrow>
             if 0 \<le> rowID \<and> rowID < int (length mutableData)
             then Returns None (mutableData[nat rowID := m])
             else Panics IndexOutOfRange mutableData))"

text \<open>
  \<^verbatim>\<open>MutableDelete\<close>: \<^verbatim>\<open>append(mutableData[:rowID], mutableData[rowID+1:]...)\<close>. The
  first slice expression is in range up to the capacity of the slice, the second up to
  its length; a \<^verbatim>\<open>rowID\<close> between the two passes the first and fails the second, with
  the same panic, so the capacity is modelled by the length. \<^verbatim>\<open>rowID+1\<close> is reached only
  for a \<^verbatim>\<open>rowID\<close> up to the capacity, where it does not overflow.
\<close>

definition MutableDelete :: "mutableData \<Rightarrow> int \<Rightarrow> (error option, mutableData) outcome" where
  "MutableDelete mutableData rowID =
     (if rowID < 0 \<or> int (length mutableData) < rowID then Panics SliceBoundsOutOfRange mutableData
      else if int (length mutableData) < rowID + 1 then Panics SliceBoundsOutOfRange mutableData
      else Returns None (take (nat rowID) mutableData @ drop (nat (rowID + 1)) mutableData))"

text \<open>
  For the examples: \<^verbatim>\<open>float64\<close> values that are whole numbers, each named by the number,
  with the output of \<^verbatim>\<open>fmt\<close> on the whole numbers and strings that the examples use.
\<close>

definition example_fmt :: "int fmt" where
  "example_fmt =
     \<lparr>to_int = (\<lambda>x. x),
      Sprintf_v = (\<lambda>v. case v of VFloat64 x \<Rightarrow> Sprintf_d x | VString s \<Rightarrow> s
                        | VBool b \<Rightarrow> (if b then ''true'' else ''false'') | VNil \<Rightarrow> ''<nil>''
                        | VOther ty \<Rightarrow> ''('' @ ty @ '')''),
      Sprintf_f = (\<lambda>v. case v of VFloat64 x \<Rightarrow> Sprintf_d x @ ''.000000''
                        | VString s \<Rightarrow> ''%!f(string='' @ s @ '')''
                        | VBool b \<Rightarrow> (if b then ''%!f(bool=true)'' else ''%!f(bool=false)'')
                        | VNil \<Rightarrow> ''%!f(<nil>)''
                        | VOther ty \<Rightarrow> ''%!f('' @ ty @ '')''),
      Sprintf_s = (\<lambda>v. case v of VFloat64 x \<Rightarrow> ''%!s(float64='' @ Sprintf_d x @ '')''
                        | VString s \<Rightarrow> s
                        | VBool b \<Rightarrow> (if b then ''%!s(bool=true)'' else ''%!s(bool=false)'')
                        | VNil \<Rightarrow> ''%!s(<nil>)''
                        | VOther ty \<Rightarrow> ''%!s('' @ ty @ '')'')\<rparr>"

definition row5678 :: "int iface list" where
  "row5678 = [VFloat64 5678, VFloat64 56789, VFloat64 5, VString ''again'']"

text \<open>A row of at least four values whose first is a \<^verbatim>\<open>float64\<close>.\<close>

definition well_formed_row :: "'f iface list \<Rightarrow> bool" where
  "well_formed_row row = (case row of VFloat64 x # b # d # t # rest \<Rightarrow> True | _ \<Rightarrow> False)"

subsection \<open>Start, Run and the watchdog\<close>

text \<open>
  The host at the other end of the socket, by the answers it gives: to the registration
  (the status and the error that \<^verbatim>\<open>RegisterExtension\<close> returns), to the opening of the
  listening socket by \<^verbatim>\<open>transport.OpenServer\<close> (\<open>Some e\<close> when it fails), the value
  that \<^verbatim>\<open>server.Serve()\<close> returns when it returns, and the answer to each \<^verbatim>\<open>Ping\<close> of the
  watchdog, counted from 0. The route table that \<^verbatim>\<open>genRegistry\<close> builds only travels to
  the host and is left out.
\<close>

record host =
  RegisterExtension :: "ExtensionStatus option \<times> error option"
  OpenServer :: "string \<Rightarrow> Duration \<Rightarrow> error option"
  Serve :: "error option"
  HostPing :: "nat \<Rightarrow> ExtensionStatus option \<times> error option"

text \<open>
  The part of \<^verbatim>\<open>Start\<close> that runs with the mutex held, up to \<^verbatim>\<open>s.started = true\<close>. A
  nil status with a nil error is dereferenced by \<^verbatim>\<open>stat.Code\<close>; a failed
  \<^verbatim>\<open>OpenServer\<close> is taken to return a nil transport, which the assignment stores.
\<close>

definition Start_setup ::
  "host \<Rightarrow> ExtensionManagerServer \<Rightarrow> (error option, ExtensionManagerServer) outcome" where
  "Start_setup h s =
     (case RegisterExtension h of
        (stat, Some e) \<Rightarrow> Returns (Some (Wrap e ''registering extension'')) s
      | (None, None) \<Rightarrow> Panics NilDereference s
      | (Some stat, None) \<Rightarrow>
          if Code stat \<noteq> 0
          then Returns (Some (''status '' @ Sprintf_d (sint (Code stat)) @
                               '' registering extension: '' @ Message stat)) s
          else
            (let listenPath = sockPath s @ ''.'' @ Sprintf_d (sint (UUID stat))
             in case OpenServer h listenPath (timeout s) of
                  Some e \<Rightarrow>
                    Returns (Some (Wrap e (''opening server socket ('' @ listenPath @ '')'')))
                      (s\<lparr>transport := None\<rparr>)
                | None \<Rightarrow>
                    (let s1 = s\<lparr>transport := Some (ServerSocket listenPath)\<rparr>;
                         s2 = s1\<lparr>server := Some (TSimpleServer2 (ServerSocket listenPath))\<rparr>;
                         s3 = (if 0 < prometheusPort s2
                               then s2\<lparr>promServer :=
                                         Some (HttpServer
                                           ('':'' @ Sprintf_d (uint (prometheusPort s2)))),
                                       pluginCounter := Some (\<lambda>l. 0),
                                       pluginGauge := Some (\<lambda>l. 0),
                                       pluginTime := Some (\<lambda>l. 0)\<rparr>
                               else s2)
                     in Returns None (s3\<lparr>started := True\<rparr>))))"

text \<open>
  \<^verbatim>\<open>Run\<close> starts two goroutines, one that sends the result of \<^verbatim>\<open>Start\<close> on the channel
  \<^verbatim>\<open>errc\<close> and the watchdog, and receives once from \<^verbatim>\<open>errc\<close>. The channel has no
  buffer: a send completes only together with the receive. The three goroutines are
  interleaved by a schedule, the list of the goroutines that take the next step; a
  goroutine that is blocked or has finished leaves the state as it is. What happens is
  recorded in a trace.
\<close>

datatype goroutine = RunG | StartG | WatchdogG

datatype event =
    Pinged nat "ExtensionStatus option \<times> error option"
  | Sent goroutine "error option"
  | MetricsServing
  | PromShutdown
  | ShutdownCalled
  | StopSpawned TServer

text \<open>
  Where each goroutine stands. \<^verbatim>\<open>Run\<close>: waiting in \<^verbatim>\<open><-errc\<close>, holding the value
  received, about to call \<^verbatim>\<open>s.Shutdown\<close>, returned. The goroutine of \<^verbatim>\<open>Start\<close>: before
  the locked part, inside \<^verbatim>\<open>server.Serve()\<close>, at the send of what \<^verbatim>\<open>Start\<close> returned,
  finished. The watchdog: in its loop with the number of pings made, at the send of a
  failure, out of the loop.
\<close>

datatype run_pc =
    Receiving
  | Received "error option"
  | ShuttingDown "error option"
  | Returned "error option"

datatype start_pc = StartBegin | Serving | StartSend "error option" | StartDone

datatype watchdog_pc = Sleeping nat | WatchdogSend error | WatchdogDone

text \<open>
  A panic in any goroutine ends the process; \<open>crashed\<close> holds it and nothing moves
  afterwards.
\<close>

record run_state =
  srv :: ExtensionManagerServer
  run_pc :: run_pc
  start_pc :: start_pc
  watchdog_pc :: watchdog_pc
  trace :: "event list"
  crashed :: "panic option"

definition run_init :: "ExtensionManagerServer \<Rightarrow> run_state" where
  "run_init s =
     \<lparr>srv = s, run_pc = Receiving, start_pc = StartBegin, watchdog_pc = Sleeping 0,
      trace = [], crashed = None\<rparr>"

text \<open>
  The statements of \<^verbatim>\<open>Run\<close> after the receive: the metrics endpoint is shut down when
  \<^verbatim>\<open>s.promServer\<close> is not nil (the error is dropped), then \<^verbatim>\<open>s.Shutdown\<close> is called and
  its error, if any, or else the value received is returned.
\<close>

definition Run_step :: "run_state \<Rightarrow> run_state" where
  "Run_step st =
     (case run_pc st of
        Receiving \<Rightarrow> st
      | Received e \<Rightarrow>
          st\<lparr>trace := trace st @ (if promServer (srv st) \<noteq> None then [PromShutdown] else []),
             run_pc := ShuttingDown e\<rparr>
      | ShuttingDown e \<Rightarrow>
          (case Shutdown (srv st) of
             (r, stops, s') \<Rightarrow>
               st\<lparr>srv := s',
                  trace := trace st @ [ShutdownCalled] @ map StopSpawned stops,
                  run_pc := Returned (case r of Some e' \<Rightarrow> Some e' | None \<Rightarrow> e)\<rparr>)
      | Returned e \<Rightarrow> st)"

text \<open>
  The goroutine \<^verbatim>\<open>errc <- s.Start()\<close>. After the locked part \<^verbatim>\<open>Start\<close> launches the
  metrics endpoint when there is one and blocks in \<^verbatim>\<open>server.Serve()\<close>, which may return
  at any later step.
\<close>

definition Start_step :: "host \<Rightarrow> run_state \<Rightarrow> run_state" where
  "Start_step h st =
     (case start_pc st of
        StartBegin \<Rightarrow>
          (case Start_setup h (srv st) of
             Panics p s' \<Rightarrow> st\<lparr>srv := s', crashed := Some p\<rparr>
           | Returns (Some e) s' \<Rightarrow> st\<lparr>srv := s', start_pc := StartSend (Some e)\<rparr>
           | Returns None s' \<Rightarrow>
               st\<lparr>srv := s',
                  trace := trace st @ (if promServer s' \<noteq> None then [MetricsServing] else []),
                  start_pc := Serving\<rparr>)
      | Serving \<Rightarrow> st\<lparr>start_pc := StartSend (Serve h)\<rparr>
      | StartSend e \<Rightarrow>
          (if run_pc st = Receiving
           then st\<lparr>trace := trace st @ [Sent StartG e], run_pc := Received e,
                  start_pc := StartDone\<rparr>
           else st)
      | StartDone \<Rightarrow> st)"

text \<open>
  One turn of the watchdog loop (the sleep, the ping and the two checks in the order of
  the code), and its send.
\<close>

definition Watchdog_step :: "host \<Rightarrow> run_state \<Rightarrow> run_state" where
  "Watchdog_step h st =
     (case watchdog_pc st of
        Sleeping n \<Rightarrow>
          (case HostPing h n of
             (status, Some e) \<Rightarrow>
               st\<lparr>trace := trace st @ [Pinged n (status, Some e)],
                  watchdog_pc := WatchdogSend (Wrap e ''extension ping failed'')\<rparr>
           | (None, None) \<Rightarrow>
               st\<lparr>trace := trace st @ [Pinged n (None, None)], crashed := Some NilDereference\<rparr>
           | (Some status, None) \<Rightarrow>
               if Code status \<noteq> 0
               then st\<lparr>trace := trace st @ [Pinged n (Some status, None)],
                       watchdog_pc :=
                         WatchdogSend (''ping returned status '' @ Sprintf_d (sint (Code status)))\<rparr>
               else st\<lparr>trace := trace st @ [Pinged n (Some status, None)],
                       watchdog_pc := Sleeping (Suc n)\<rparr>)
      | WatchdogSend e \<Rightarrow>
          (if run_pc st = Receiving
           then st\<lparr>trace := trace st @ [Sent WatchdogG (Some e)], run_pc := Received (Some e),
                  watchdog_pc := WatchdogDone\<rparr>
           else st)
      | WatchdogDone \<Rightarrow> st)"

definition step :: "host \<Rightarrow> goroutine \<Rightarrow> run_state \<Rightarrow> run_state" where
  "step h g st =
     (if crashed st \<noteq> None then st
      else case g of
             RunG \<Rightarrow> Run_step st
           | StartG \<Rightarrow> Start_step h st
           | WatchdogG \<Rightarrow> Watchdog_step h st)"

fun exec :: "host \<Rightarrow> goroutine list \<Rightarrow> run_state \<Rightarrow> run_state" where
  "exec h [] st = st"
| "exec h (g # gs) st = exec h gs (step h g st)"

text \<open>
  What a trace shows: the pings, those that failed (an error, or a status with a nonzero
  code), the sends that completed, and the two actions of \<^verbatim>\<open>Run\<close>.
\<close>

fun ping_failed :: "ExtensionStatus option \<times> error option \<Rightarrow> bool" where
  "ping_failed (status, Some e) = True"
| "ping_failed (Some status, None) = (Code status \<noteq> 0)"
| "ping_failed (None, None) = False"

fun is_ping :: "event \<Rightarrow> bool" where
  "is_ping (Pinged n a) = True"
| "is_ping ev = False"

fun is_failed_ping :: "event \<Rightarrow> bool" where
  "is_failed_ping (Pinged n a) = ping_failed a"
| "is_failed_ping ev = False"

fun is_send :: "event \<Rightarrow> bool" where
  "is_send (Sent g e) = True"
| "is_send ev = False"

fun sent_by :: "goroutine \<Rightarrow> event \<Rightarrow> bool" where
  "sent_by g (Sent g' e) = (g = g')"
| "sent_by g ev = False"

fun is_run_event :: "event \<Rightarrow> bool" where
  "is_run_event PromShutdown = True"
| "is_run_event ShutdownCalled = True"
| "is_run_event ev = False"

definition pings :: "event list \<Rightarrow> event list" where
  "pings tr = filter is_ping tr"

definition failed_pings :: "event list \<Rightarrow> event list" where
  "failed_pings tr = filter is_failed_ping tr"

definition sends :: "event list \<Rightarrow> event list" where
  "sends tr = filter is_send tr"

definition sends_by :: "goroutine \<Rightarrow> event list \<Rightarrow> event list" where
  "sends_by g tr = filter (sent_by g) tr"

definition run_events :: "event list \<Rightarrow> event list" where
  "run_events tr = filter is_run_event tr"

text \<open>What holds of every state that an execution reaches.\<close>

definition watchdog_inv :: "run_state \<Rightarrow> bool" where
  "watchdog_inv st =
     (case watchdog_pc st of
        Sleeping n \<Rightarrow> failed_pings (trace st) = [] \<and> sends_by WatchdogG (trace st) = []
      | WatchdogSend e \<Rightarrow>
          length (failed_pings (trace st)) = 1 \<and> is_failed_ping (last (pings (trace st))) \<and>
          sends_by WatchdogG (trace st) = []
      | WatchdogDone \<Rightarrow>
          length (failed_pings (trace st)) = 1 \<and> is_failed_ping (last (pings (trace st))) \<and>
          length (sends_by WatchdogG (trace st)) = 1)"

definition run_inv :: "run_state \<Rightarrow> bool" where
  "run_inv st =
     (case run_pc st of
        Receiving \<Rightarrow> sends (trace st) = [] \<and> run_events (trace st) = []
      | Received e \<Rightarrow>
          (sends (trace st) = [Sent StartG e] \<or> sends (trace st) = [Sent WatchdogG e]) \<and>
          run_events (trace st) = []
      | ShuttingDown e \<Rightarrow>
          (sends (trace st) = [Sent StartG e] \<or> sends (trace st) = [Sent WatchdogG e]) \<and>
          (run_events (trace st) = [] \<or> run_events (trace st) = [PromShutdown])
      | Returned e \<Rightarrow>
          (sends (trace st) = [Sent StartG e] \<or> sends (trace st) = [Sent WatchdogG e]) \<and>
          (run_events (trace st) = [ShutdownCalled] \<or>
           run_events (trace st) = [PromShutdown, ShutdownCalled]))"

definition metrics_inv :: "run_state \<Rightarrow> bool" where
  "metrics_inv st =
     ((promServer (srv st) \<noteq> None) = (MetricsServing \<in> set (trace st)) \<and>
      (PromShutdown \<notin> set (trace st) \<or> MetricsServing \<in> set (trace st)) \<and>
      (start_pc st \<noteq> StartBegin \<or> MetricsServing \<notin> set (trace st)))"

text \<open>
  The steps that \<^verbatim>\<open>Run\<close> still has to take once it has received, and the value it
  received.
\<close>

fun steps_left :: "run_pc \<Rightarrow> nat" where
  "steps_left (Received e) = 2"
| "steps_left (ShuttingDown e) = 1"
| "steps_left pc = 0"

fun received_value :: "run_pc \<Rightarrow> error option option" where
  "received_value Receiving = None"
| "received_value (Received e) = Some e"
| "received_value (ShuttingDown e) = Some e"
| "received_value (Returned e) = Some e"

text \<open>
  A host that registers the extension under the UUID 7, answers the first ping and then
  goes away: the serve loop ends with an error and every later ping fails. Two schedules:
  one in which the failure of the watchdog reaches \<^verbatim>\<open>Run\<close> first, one in which the exit of
  the serve loop does.
\<close>

definition departing_host :: host where
  "departing_host =
     \<lparr>RegisterExtension = (Some \<lparr>Code = 0, Message = ''OK'', UUID = 7\<rparr>, None),
      OpenServer = (\<lambda>path t. None),
      Serve = Some ''accept: use of closed network connection'',
      HostPing = (\<lambda>n. if n = 0 then (Some StatusOK, None) else (None, Some ''broken pipe''))\<rparr>"

definition watchdog_wins :: "goroutine list" where
  "watchdog_wins = [StartG, WatchdogG, WatchdogG, WatchdogG, StartG, StartG, RunG, RunG]"

definition serve_loop_wins :: "goroutine list" where
  "serve_loop_wins =
     [StartG, WatchdogG, StartG, StartG, WatchdogG, WatchdogG, RunG, RunG, WatchdogG]"

definition listening :: TServer where
  "listening = TSimpleServer2 (ServerSocket ''/var/osquery/osquery.em.7'')"


section \<open>The registry\<close>

lemma validRegistryName_iff:
  "validRegistryName r \<longleftrightarrow> r \<in> {''table'', ''logger'', ''config'', ''distributed''}"
  by (simp add: validRegistryName_def validRegistryNames_def)

lemma registry_ready_valid:
  "registry_ready s \<Longrightarrow> validRegistryName r \<Longrightarrow> \<exists>subreg. registry s r = Some subreg"
  by (auto simp: registry_ready_def validRegistryName_iff validRegistryNames_def)

lemma exported_option_registry:
  "exported_option opt \<Longrightarrow> registry (opt s) = registry s"
  by (induction rule: exported_option.induct)
     (simp_all add: ServerVersion_def ServerTimeout_def ServerPingInterval_def
        ServerPrometheusPort_def)

lemma fold_options_registry:
  "\<forall>opt\<in>set opts. exported_option opt \<Longrightarrow>
     registry (fold (\<lambda>opt m. opt m) opts s) = registry s"
  by (induction opts arbitrary: s) (simp_all add: exported_option_registry)

lemma New_registry:
  assumes "NewExtensionManagerServer nm path opts NewClient = Inr s"
      and "\<forall>opt\<in>set opts. exported_option opt"
  shows "registry s = (\<lambda>r. if validRegistryName r then Some Map.empty else None)"
proof -
  from assms(1) obtain m where
    s: "s = fold (\<lambda>opt m. opt m) opts m" and
    m: "registry m = fold (\<lambda>r m. m(r \<mapsto> Map.empty)) (map fst validRegistryNames) Map.empty"
    by (auto simp: NewExtensionManagerServer_def Let_def split: option.splits)
  have "registry s = registry m"
    using assms(2) s by (simp add: fold_options_registry)
  also have "\<dots> = (\<lambda>r. if validRegistryName r then Some Map.empty else None)"
    by (auto simp: m validRegistryName_iff validRegistryNames_def)
  finally show ?thesis .
qed

lemma last_registered_Nil: "last_registered C N [] = None"
  by (simp add: last_registered_def)

lemma find_app:
  "find P (xs @ ys) = (case find P xs of None \<Rightarrow> find P ys | Some x \<Rightarrow> Some x)"
  by (induction xs) simp_all

lemma last_registered_append:
  "last_registered C N (ps @ qs) =
     (case last_registered C N qs of None \<Rightarrow> last_registered C N ps | Some q \<Rightarrow> Some q)"
  unfolding last_registered_def by (simp add: find_app)

lemma last_registered_Cons:
  "last_registered C N (p # ps) =
     (case last_registered C N ps of
        None \<Rightarrow> (if RegistryName p = C \<and> Name p = N then Some p else None)
      | Some q \<Rightarrow> Some q)"
  unfolding last_registered_def by (simp add: find_app split: option.splits)

lemma Lookup_insert:
  "registry s (RegistryName p) = Some subreg \<Longrightarrow>
   Lookup (s\<lparr>registry := (registry s)(RegistryName p \<mapsto> subreg(Name p \<mapsto> p))\<rparr>) C N =
     (if RegistryName p = C \<and> Name p = N then Found p else Lookup s C N)"
  by (auto simp: Lookup_def)

lemma registry_ready_insert:
  "registry_ready s \<Longrightarrow>
   registry_ready (s\<lparr>registry := (registry s)(r \<mapsto> m)\<rparr>)"
  by (simp add: registry_ready_def list_all_iff)

lemma RegisterPlugin_valid:
  "registry_ready s \<Longrightarrow> \<forall>p\<in>set plugins. validRegistryName (RegistryName p) \<Longrightarrow>
   \<exists>s'. RegisterPlugin s plugins = Returns () s' \<and> registry_ready s' \<and>
        (\<forall>C N. Lookup s' C N =
           (case last_registered C N plugins of None \<Rightarrow> Lookup s C N | Some p \<Rightarrow> Found p))"
proof (induction plugins arbitrary: s)
  case Nil
  then show ?case by (simp add: last_registered_Nil)
next
  case (Cons p plugins)
  from Cons.prems obtain subreg where sub: "registry s (RegistryName p) = Some subreg"
    using registry_ready_valid by fastforce
  let ?s1 = "s\<lparr>registry := (registry s)(RegistryName p \<mapsto> subreg(Name p \<mapsto> p))\<rparr>"
  have ready: "registry_ready ?s1"
    using Cons.prems(1) by (rule registry_ready_insert)
  from Cons.IH [OF ready] Cons.prems(2) obtain s' where
    run: "RegisterPlugin ?s1 plugins = Returns () s'" and r': "registry_ready s'" and
    look: "\<forall>C N. Lookup s' C N =
             (case last_registered C N plugins of None \<Rightarrow> Lookup ?s1 C N | Some p \<Rightarrow> Found p)"
    by auto
  have "RegisterPlugin s (p # plugins) = Returns () s'"
    using Cons.prems(2) sub run by simp
  moreover have "Lookup s' C N =
      (case last_registered C N (p # plugins) of None \<Rightarrow> Lookup s C N | Some p \<Rightarrow> Found p)"
    for C N
  proof (cases "last_registered C N plugins")
    case None
    then have "Lookup s' C N = Lookup ?s1 C N"
      using look by simp
    also have "\<dots> = (if RegistryName p = C \<and> Name p = N then Found p else Lookup s C N)"
      by (rule Lookup_insert [OF sub])
    finally show ?thesis
      using None by (simp add: last_registered_Cons)
  next
    case (Some q)
    then show ?thesis
      using look by (simp add: last_registered_Cons)
  qed
  ultimately show ?case using r' by blast
qed

lemma RegisterPlugin_calls_valid:
  "registry_ready s \<Longrightarrow> \<forall>p\<in>set (concat calls). validRegistryName (RegistryName p) \<Longrightarrow>
   \<exists>s'. RegisterPlugin_calls s calls = Returns () s' \<and>
        (\<forall>C N. Lookup s' C N =
           (case last_registered C N (concat calls) of
              None \<Rightarrow> Lookup s C N | Some p \<Rightarrow> Found p))"
proof (induction calls arbitrary: s)
  case Nil
  then show ?case by (simp add: last_registered_Nil)
next
  case (Cons plugins calls)
  from Cons.prems have v1: "\<forall>p\<in>set plugins. validRegistryName (RegistryName p)"
    and v2: "\<forall>p\<in>set (concat calls). validRegistryName (RegistryName p)"
    by auto
  from RegisterPlugin_valid [OF Cons.prems(1) v1] obtain s1 where
    one: "RegisterPlugin s plugins = Returns () s1" and r1: "registry_ready s1" and
    l1: "\<forall>C N. Lookup s1 C N =
           (case last_registered C N plugins of None \<Rightarrow> Lookup s C N | Some p \<Rightarrow> Found p)"
    by blast
  from Cons.IH [OF r1 v2] obtain s' where
    run: "RegisterPlugin_calls s1 calls = Returns () s'" and
    l2: "\<forall>C N. Lookup s' C N =
           (case last_registered C N (concat calls) of
              None \<Rightarrow> Lookup s1 C N | Some p \<Rightarrow> Found p)"
    by blast
  have "RegisterPlugin_calls s (plugins # calls) = Returns () s'"
    using one run by simp
  moreover have "Lookup s' C N =
      (case last_registered C N (concat (plugins # calls)) of
         None \<Rightarrow> Lookup s C N | Some p \<Rightarrow> Found p)" for C N
    using l1 [rule_format, of C N] l2 [rule_format, of C N]
    by (simp add: last_registered_append split: option.splits)
  ultimately show ?case by blast
qed

lemma Call_by_Lookup:
  "invoked (Call s reg item request) =
     (case Lookup s reg item of Found p \<Rightarrow> [(p, request)] | _ \<Rightarrow> [])"
  by (simp add: Call_def Lookup_def Let_def split: option.splits)

lemma RegisterPlugin_append:
  "RegisterPlugin s (pre @ rest) =
     (case RegisterPlugin s pre of
        Returns u s' \<Rightarrow> RegisterPlugin s' rest
      | Panics m s' \<Rightarrow> Panics m s')"
  by (induction pre arbitrary: s) (simp_all split: option.splits)

lemma New_example_server:
  "NewExtensionManagerServer ''example_extension'' ''/var/osquery/osquery.em''
     [ServerTimeout (3 * 1000000000), ServerPingInterval (3 * 1000000000),
      ServerPrometheusPort 3000] (\<lambda>path t. None) = Inr example_server"
  by (simp add: NewExtensionManagerServer_def validRegistryNames_def ServerTimeout_def
      ServerPingInterval_def ServerPrometheusPort_def example_server_def)

text \<open>
  C1. After any sequence of \<^verbatim>\<open>RegisterPlugin\<close> calls on a newly constructed server, with
  every plugin in one of the four registries, the lookup of the dispatcher finds under each
  (registry, name) the plugin registered last under it, and \<^verbatim>\<open>Call\<close> invokes that
  plugin; under a pair that nothing was registered under it finds nothing and \<^verbatim>\<open>Call\<close>
  invokes no plugin.
\<close>

theorem lookup_most_recently_registered:
  assumes "NewExtensionManagerServer nm path opts NewClient = Inr s0"
      and "\<forall>opt\<in>set opts. exported_option opt"
      and "\<forall>p\<in>set (concat calls).
             RegistryName p \<in> {''table'', ''logger'', ''config'', ''distributed''}"
  shows "\<exists>s. RegisterPlugin_calls s0 calls = Returns () s \<and>
           (\<forall>C N request.
              (case last_registered C N (concat calls) of
                 Some P \<Rightarrow> Lookup s C N = Found P \<and>
                           invoked (Call s C N request) = [(P, request)]
               | None \<Rightarrow> Lookup s C N \<in> {UnknownRegistry, UnknownItem} \<and>
                         invoked (Call s C N request) = []))"
proof -
  have reg0: "registry s0 = (\<lambda>r. if validRegistryName r then Some Map.empty else None)"
    using assms(1,2) by (rule New_registry)
  have ready: "registry_ready s0"
    by (simp add: registry_ready_def reg0 validRegistryName_iff validRegistryNames_def)
  have none0: "Lookup s0 C N \<in> {UnknownRegistry, UnknownItem}" for C N
    by (simp add: Lookup_def reg0)
  have valid: "\<forall>p\<in>set (concat calls). validRegistryName (RegistryName p)"
    using assms(3) by (simp add: validRegistryName_iff)
  from RegisterPlugin_calls_valid [OF ready valid] obtain s where
    run: "RegisterPlugin_calls s0 calls = Returns () s" and
    look: "\<forall>C N. Lookup s C N =
             (case last_registered C N (concat calls) of
                None \<Rightarrow> Lookup s0 C N | Some p \<Rightarrow> Found p)"
    by blast
  have "case last_registered C N (concat calls) of
          Some P \<Rightarrow> Lookup s C N = Found P \<and> invoked (Call s C N request) = [(P, request)]
        | None \<Rightarrow> Lookup s C N \<in> {UnknownRegistry, UnknownItem} \<and>
                  invoked (Call s C N request) = []" for C N request
    using look [rule_format, of C N] none0 [of C N]
    by (auto simp: Call_by_Lookup split: option.splits)
  with run show ?thesis by blast
qed

theorem lookup_most_recently_registered_witness:
  "NewExtensionManagerServer ''example_extension'' ''/var/osquery/osquery.em''
     [ServerTimeout (3 * 1000000000), ServerPingInterval (3 * 1000000000),
      ServerPrometheusPort 3000] (\<lambda>path t. None) = Inr example_server \<and>
   (\<exists>s. RegisterPlugin_calls example_server
          [[example_table, example_config], [example_table_empty]] = Returns () s \<and>
        Lookup s ''table'' ''example_table'' = Found example_table_empty \<and>
        Lookup s ''config'' ''example_config'' = Found example_config \<and>
        Lookup s ''config'' ''example_table'' = UnknownItem \<and>
        Lookup s ''tables'' ''example_table'' = UnknownRegistry)"
proof -
  let ?calls = "[[example_table, example_config], [example_table_empty]]"
  have opts: "\<forall>opt\<in>set [ServerTimeout (3 * 1000000000), ServerPingInterval (3 * 1000000000),
      ServerPrometheusPort 3000]. exported_option opt"
    by (simp add: exported_option.intros)
  have cats: "\<forall>p\<in>set (concat ?calls).
      RegistryName p \<in> {''table'', ''logger'', ''config'', ''distributed''}"
    by (simp add: example_table_def example_config_def example_table_empty_def)
  from lookup_most_recently_registered [OF New_example_server opts cats] obtain s where
    run: "RegisterPlugin_calls example_server ?calls = Returns () s" and
    look: "\<And>C N request.
             (case last_registered C N (concat ?calls) of
                Some P \<Rightarrow> Lookup s C N = Found P \<and>
                          invoked (Call s C N request) = [(P, request)]
              | None \<Rightarrow> Lookup s C N \<in> {UnknownRegistry, UnknownItem} \<and>
                        invoked (Call s C N request) = [])"
    by blast
  have l1: "last_registered ''table'' ''example_table'' (concat ?calls) = Some example_table_empty"
    by (simp add: last_registered_def example_table_def example_config_def
        example_table_empty_def)
  have l2: "last_registered ''config'' ''example_config'' (concat ?calls) = Some example_config"
    by (simp add: last_registered_def example_table_def example_config_def
        example_table_empty_def)
  have "Lookup s ''table'' ''example_table'' = Found example_table_empty"
    using look [of "''table''" "''example_table''"] l1 by simp
  moreover have "Lookup s ''config'' ''example_config'' = Found example_config"
    using look [of "''config''" "''example_config''"] l2 by simp
  moreover from run have s: "s = state_of (RegisterPlugin_calls example_server ?calls)"
    by simp
  have "Lookup s ''config'' ''example_table'' = UnknownItem"
    unfolding s by (simp add: example_server_def example_table_def example_config_def
        example_table_empty_def validRegistryName_def validRegistryNames_def Lookup_def)
  moreover have "Lookup s ''tables'' ''example_table'' = UnknownRegistry"
    unfolding s by (simp add: example_server_def example_table_def example_config_def
        example_table_empty_def validRegistryName_def validRegistryNames_def Lookup_def)
  ultimately show ?thesis
    using run New_example_server by blast
qed

text \<open>
  C5. As specified, a \<^verbatim>\<open>RegisterPlugin\<close> call with a plugin of an invalid registry name among
  its arguments panics and leaves the registry as it was. The code checks each plugin as
  its turn comes: the call panics at the first invalid plugin, the plugins before it in
  the argument list are then registered (the state is the one a call with only them
  returns), the invalid one and those after it are not, and the registry is as it was
  when the invalid plugin is the first argument.
\<close>

theorem RegisterPlugin_invalid_panics:
  assumes "registry_ready s"
      and "\<forall>p\<in>set pre. validRegistryName (RegistryName p)"
      and "RegistryName bad \<notin> {''table'', ''logger'', ''config'', ''distributed''}"
  shows "\<exists>s'. RegisterPlugin s pre = Returns () s' \<and>
              RegisterPlugin s (pre @ bad # post) =
                Panics (Panic (''invalid registry name: '' @ RegistryName bad)) s' \<and>
              (pre = [] \<longrightarrow> s' = s)"
proof -
  from RegisterPlugin_valid [OF assms(1,2)] obtain s' where
    pre: "RegisterPlugin s pre = Returns () s'"
    by blast
  have "RegisterPlugin s' (bad # post) =
          Panics (Panic (''invalid registry name: '' @ RegistryName bad)) s'"
    using assms(3) by (simp add: validRegistryName_iff)
  with pre have "RegisterPlugin s (pre @ bad # post) =
          Panics (Panic (''invalid registry name: '' @ RegistryName bad)) s'"
    by (simp add: RegisterPlugin_append)
  moreover have "pre = [] \<longrightarrow> s' = s"
    using pre by auto
  ultimately show ?thesis
    using pre by blast
qed

theorem RegisterPlugin_invalid_panics_witness:
  "registry_ready example_server \<and>
   RegisterPlugin example_server [misfiled_plugin, example_table] =
     Panics (Panic ''invalid registry name: tables'') example_server \<and>
   (\<exists>s'. RegisterPlugin example_server [example_config] = Returns () s' \<and>
         RegisterPlugin example_server [example_config, misfiled_plugin, example_table] =
           Panics (Panic ''invalid registry name: tables'') s' \<and>
         Lookup s' ''config'' ''example_config'' = Found example_config \<and>
         Lookup s' ''table'' ''example_table'' = UnknownItem)"
proof -
  have ready: "registry_ready example_server"
    by (simp add: registry_ready_def example_server_def validRegistryNames_def)
  have bad: "RegistryName misfiled_plugin \<notin> {''table'', ''logger'', ''config'', ''distributed''}"
    by (simp add: misfiled_plugin_def)
  have name: "RegistryName misfiled_plugin = ''tables''"
    by (simp add: misfiled_plugin_def)
  have v0: "\<forall>p\<in>set []. validRegistryName (RegistryName p)"
    by simp
  have v1: "\<forall>p\<in>set [example_config]. validRegistryName (RegistryName p)"
    by (simp add: example_config_def validRegistryName_iff)
  from RegisterPlugin_invalid_panics [OF ready v0 bad, of "[example_table]"]
  have first: "RegisterPlugin example_server [misfiled_plugin, example_table] =
      Panics (Panic ''invalid registry name: tables'') example_server"
    by (simp add: name)
  from RegisterPlugin_invalid_panics [OF ready v1 bad, of "[example_table]"] obtain s' where
    pre: "RegisterPlugin example_server [example_config] = Returns () s'" and
    run: "RegisterPlugin example_server [example_config, misfiled_plugin, example_table] =
            Panics (Panic ''invalid registry name: tables'') s'"
    by (auto simp: name)
  from pre have s': "s' = state_of (RegisterPlugin example_server [example_config])"
    by simp
  have "Lookup s' ''config'' ''example_config'' = Found example_config"
    unfolding s' by (simp add: example_server_def example_config_def validRegistryName_def
        validRegistryNames_def Lookup_def)
  moreover have "Lookup s' ''table'' ''example_table'' = UnknownItem"
    unfolding s' by (simp add: example_server_def example_config_def validRegistryName_def
        validRegistryNames_def Lookup_def)
  ultimately show ?thesis
    using ready first pre run by blast
qed

text \<open>
  At \<^verbatim>\<open>RegisterPlugin(example_table, misfiled_plugin)\<close> the call panics and the registry
  has changed: \<open>example_table\<close> is found in it afterwards.
\<close>

theorem RegisterPlugin_invalid_counterexample:
  "RegistryName misfiled_plugin \<notin> {''table'', ''logger'', ''config'', ''distributed''} \<and>
   panicked (RegisterPlugin example_server [example_table, misfiled_plugin]) \<and>
   Lookup (state_of (RegisterPlugin example_server [example_table, misfiled_plugin]))
     ''table'' ''example_table'' = Found example_table \<and>
   Lookup example_server ''table'' ''example_table'' = UnknownItem \<and>
   registry (state_of (RegisterPlugin example_server [example_table, misfiled_plugin])) \<noteq>
     registry example_server"
proof -
  let ?s' = "state_of (RegisterPlugin example_server [example_table, misfiled_plugin])"
  have a: "Lookup ?s' ''table'' ''example_table'' = Found example_table"
    by (simp add: example_server_def example_table_def misfiled_plugin_def
        validRegistryName_def validRegistryNames_def Lookup_def)
  have b: "Lookup example_server ''table'' ''example_table'' = UnknownItem"
    by (simp add: example_server_def Lookup_def)
  have "registry ?s' \<noteq> registry example_server"
  proof
    assume "registry ?s' = registry example_server"
    then have "Lookup ?s' ''table'' ''example_table'' =
        Lookup example_server ''table'' ''example_table''"
      unfolding Lookup_def by simp
    with a b show False by simp
  qed
  moreover have "panicked (RegisterPlugin example_server [example_table, misfiled_plugin])"
    by (simp add: example_server_def example_table_def misfiled_plugin_def
        validRegistryName_def validRegistryNames_def)
  moreover have "RegistryName misfiled_plugin \<notin> {''table'', ''logger'', ''config'', ''distributed''}"
    by (simp add: misfiled_plugin_def)
  ultimately show ?thesis
    using a b by blast
qed

section \<open>The dispatcher\<close>

text \<open>
  C2. For a registry name that is no key of the registry map, \<^verbatim>\<open>Call\<close> returns the
  status with code 1 and the message \<^verbatim>\<open>Unknown registry: \<close> followed by the name, with a
  nil error; it invokes no plugin and leaves the server, its registry and metrics
  included, as it was.
\<close>

theorem Call_unknown_registry:
  assumes "registry s X = None"
  shows "Status (response (Call s X item request)) =
           Some \<lparr>Code = 1, Message = ''Unknown registry: '' @ X, UUID = 0\<rparr> \<and>
         Response (response (Call s X item request)) = [] \<and>
         err (Call s X item request) = None \<and>
         invoked (Call s X item request) = [] \<and>
         after (Call s X item request) = s"
  using assms by (simp add: Call_def unknown_def)

theorem Call_unknown_registry_witness:
  "registry example_server ''tables'' = None \<and>
   Status (response (Call example_server ''tables'' ''example_table'' [''action'' \<mapsto> ''generate''])) =
     Some \<lparr>Code = 1, Message = ''Unknown registry: tables'', UUID = 0\<rparr> \<and>
   invoked (Call example_server ''tables'' ''example_table'' [''action'' \<mapsto> ''generate'']) = [] \<and>
   after (Call example_server ''tables'' ''example_table'' [''action'' \<mapsto> ''generate'']) =
     example_server"
proof -
  have h: "registry example_server ''tables'' = None"
    by (simp add: example_server_def)
  from Call_unknown_registry [OF h, of "''example_table''" "[''action'' \<mapsto> ''generate'']"] h
  show ?thesis by simp
qed

text \<open>
  C3. For a registry name that is a key of the registry map and an item that is not
  registered under it, \<^verbatim>\<open>Call\<close> returns the status with code 1 and the message
  \<^verbatim>\<open>Unknown registry item: \<close> followed by the item, and invokes no plugin.
\<close>

theorem Call_unknown_item:
  assumes "registry s X = Some subreg" and "subreg Y = None"
  shows "Status (response (Call s X Y request)) =
           Some \<lparr>Code = 1, Message = ''Unknown registry item: '' @ Y, UUID = 0\<rparr> \<and>
         Response (response (Call s X Y request)) = [] \<and>
         err (Call s X Y request) = None \<and>
         invoked (Call s X Y request) = [] \<and>
         after (Call s X Y request) = s"
  using assms by (simp add: Call_def unknown_def)

theorem Call_unknown_item_witness:
  "registry serving_server ''table'' = Some [''example_table'' \<mapsto> example_table] \<and>
   [''example_table'' \<mapsto> example_table] ''another_table'' = None \<and>
   Status (response (Call serving_server ''table'' ''another_table'' [''action'' \<mapsto> ''generate''])) =
     Some \<lparr>Code = 1, Message = ''Unknown registry item: another_table'', UUID = 0\<rparr> \<and>
   invoked (Call serving_server ''table'' ''another_table'' [''action'' \<mapsto> ''generate'']) = []"
proof -
  have h1: "registry serving_server ''table'' = Some [''example_table'' \<mapsto> example_table]"
    by (simp add: serving_server_def)
  have h2: "[''example_table'' \<mapsto> example_table] ''another_table'' = None"
    by simp
  from Call_unknown_item [OF h1 h2, of "[''action'' \<mapsto> ''generate'']"] h1 h2
  show ?thesis by simp
qed

text \<open>
  C4. When a plugin is registered under (category, item), \<^verbatim>\<open>Call\<close> returns the response
  of that plugin's own \<^verbatim>\<open>Call\<close> on the request, unchanged, with a nil error, and it
  invokes that plugin once with the request it was given.
\<close>

theorem Call_returns_plugin_response:
  assumes "Lookup s category item = Found P"
  shows "response (Call s category item request) = PluginCall P request \<and>
         err (Call s category item request) = None \<and>
         invoked (Call s category item request) = [(P, request)]"
  using assms by (auto simp: Call_def Lookup_def Let_def split: option.splits)

theorem Call_returns_plugin_response_witness:
  "Lookup serving_server ''table'' ''example_table'' = Found example_table \<and>
   response (Call serving_server ''table'' ''example_table'' [''action'' \<mapsto> ''generate'']) =
     \<lparr>Status = Some StatusOK, Response = ExampleGenerate\<rparr> \<and>
   err (Call serving_server ''table'' ''example_table'' [''action'' \<mapsto> ''generate'']) = None"
proof -
  have h: "Lookup serving_server ''table'' ''example_table'' = Found example_table"
    by (simp add: Lookup_def serving_server_def)
  have "PluginCall example_table [''action'' \<mapsto> ''generate''] =
          \<lparr>Status = Some StatusOK, Response = ExampleGenerate\<rparr>"
    by (simp add: example_table_def)
  with Call_returns_plugin_response [OF h, of "[''action'' \<mapsto> ''generate'']"] h
  show ?thesis by simp
qed

text \<open>With the metrics on, a dispatched call is counted, timed and its row count recorded.\<close>

lemma Call_metrics:
  "after (Call serving_server ''table'' ''example_table'' [''action'' \<mapsto> ''generate'']) =
     serving_server\<lparr>pluginCounter := Some ((\<lambda>l. 0)((''example_table'', ''generate'') := 1)),
                    pluginGauge := Some ((\<lambda>l. 0)((''example_table'', ''generate'') := 1)),
                    pluginTime := Some ((\<lambda>l. 0)((''example_table'', ''generate'') := 1))\<rparr>"
  by (simp add: Call_def serving_server_def example_server_def Let_def action_def Inc_def
      Set_gauge_def ObserveDuration_def example_table_def ExampleGenerate_def)

section \<open>Shutdown\<close>

text \<open>
  C6. \<^verbatim>\<open>Shutdown\<close> returns nil and leaves the server handle nil; a further
  \<^verbatim>\<open>Shutdown\<close>, and any \<^verbatim>\<open>Shutdown\<close> of a server whose handle is nil already, stops
  nothing, changes nothing in the server and returns nil.
\<close>

theorem Shutdown_idempotent:
  "fst (Shutdown s) = None \<and>
   server (snd (snd (Shutdown s))) = None \<and>
   Shutdown (snd (snd (Shutdown s))) = (None, [], snd (snd (Shutdown s))) \<and>
   (server s = None \<longrightarrow> Shutdown s = (None, [], s))"
  by (simp add: Shutdown_def split: option.splits)

theorem Shutdown_idempotent_witness:
  "server (snd (snd (Shutdown serving_server))) = None \<and>
   fst (snd (Shutdown serving_server)) =
     [TSimpleServer2 (ServerSocket ''/var/osquery/osquery.em.7'')] \<and>
   Shutdown (snd (snd (Shutdown serving_server))) =
     (None, [], snd (snd (Shutdown serving_server))) \<and>
   server example_server = None \<and>
   Shutdown example_server = (None, [], example_server)"
proof -
  have "server example_server = None"
    by (simp add: example_server_def)
  moreover have "fst (snd (Shutdown serving_server)) =
      [TSimpleServer2 (ServerSocket ''/var/osquery/osquery.em.7'')]"
    by (simp add: Shutdown_def serving_server_def)
  ultimately show ?thesis
    using Shutdown_idempotent [of serving_server] Shutdown_idempotent [of example_server]
    by simp
qed

section \<open>The mutable table\<close>

lemma row_id_float64 [simp]:
  "row_id L (VFloat64 x # rest) = Inr (Sprintf_d (to_int L x))"
  by (simp add: row_id_def index_def assert_float64_def)

lemma row_map_four [simp]:
  "row_map L ident (v # b # d # t # rest) =
     Inr [''i'' \<mapsto> ident, ''b'' \<mapsto> Sprintf_v L b, ''d'' \<mapsto> Sprintf_f L d, ''t'' \<mapsto> Sprintf_s L t]"
  by (simp add: row_map_def index_def)

lemma MutableDelete_in_range:
  assumes "0 \<le> rowID" and "rowID < int (length mutableData)"
  shows "MutableDelete mutableData rowID =
           Returns None (take (nat rowID) mutableData @ drop (Suc (nat rowID)) mutableData)"
proof -
  have "nat (rowID + 1) = Suc (nat rowID)"
    using assms(1) by simp
  then show ?thesis
    using assms by (simp add: MutableDelete_def)
qed

lemma delete_nth_before:
  "j < i \<Longrightarrow> i < length xs \<Longrightarrow> (take i xs @ drop (Suc i) xs) ! j = xs ! j"
  by (simp add: nth_append)

lemma delete_nth_after:
  "i \<le> j \<Longrightarrow> Suc j < length xs \<Longrightarrow> (take i xs @ drop (Suc i) xs) ! j = xs ! Suc j"
  by (simp add: nth_append min_def)

lemma well_formed_rowE:
  assumes "well_formed_row row"
  obtains x b d t rest where "row = VFloat64 x # b # d # t # rest"
  using assms by (auto simp: well_formed_row_def split: list.splits iface.splits)

lemma row_not_well_formed:
  assumes "\<not> well_formed_row row"
  shows "(\<exists>p. row_id L row = Inl p) \<or> (\<exists>ident p. row_id L row = Inr ident \<and> row_map L ident row = Inl p)"
proof (cases row)
  case Nil
  then show ?thesis by (simp add: row_id_def index_def)
next
  case (Cons v rest)
  show ?thesis
  proof (cases v)
    case (VFloat64 x)
    with Cons assms have "length rest < 3"
      by (auto simp: well_formed_row_def split: list.splits)
    then have "\<exists>p. row_map L (Sprintf_d (to_int L x)) row = Inl p"
      using Cons by (auto simp: row_map_def index_def split: sum.splits)
    with Cons VFloat64 show ?thesis by simp
  qed (simp_all add: Cons row_id_def index_def assert_float64_def)
qed

text \<open>
  C9. On any backing store, \<^verbatim>\<open>MutableInsert\<close> appends the new row, which is then at the
  index that was the length (index 2 from the two rows of the example) with the rows
  before it unchanged; for a row index in range, \<^verbatim>\<open>MutableDelete\<close> removes that row and
  every later row moves down by one index, and \<^verbatim>\<open>MutableUpdate\<close> replaces the row at that
  index and leaves every other row as it was. The instance that follows is the scenario of
  the example: values beginning with 5678 inserted into, row 0 deleted from and row 0
  updated in the store that \<^verbatim>\<open>main\<close> sets up.
\<close>

theorem mutable_table_operations:
  assumes "row = VFloat64 x # b # d # t # rest"
      and "new = [''i'' \<mapsto> Sprintf_d (to_int L x), ''b'' \<mapsto> Sprintf_v L b,
                  ''d'' \<mapsto> Sprintf_f L d, ''t'' \<mapsto> Sprintf_s L t]"
      and "0 \<le> rowID" and "rowID < int (length mutableData)"
  shows "(\<exists>result. MutableInsert L mutableData autoRowID row =
            Returns (result, None) (mutableData @ [new])) \<and>
         (mutableData @ [new]) ! length mutableData = new \<and>
         (\<forall>j<length mutableData. (mutableData @ [new]) ! j = mutableData ! j) \<and>
         (\<exists>after. MutableDelete mutableData rowID = Returns None after \<and>
            Suc (length after) = length mutableData \<and>
            (\<forall>j. j < nat rowID \<longrightarrow> after ! j = mutableData ! j) \<and>
            (\<forall>j. nat rowID \<le> j \<and> j < length after \<longrightarrow> after ! j = mutableData ! Suc j)) \<and>
         (\<exists>after. MutableUpdate L mutableData rowID row = Returns None after \<and>
            length after = length mutableData \<and>
            after ! nat rowID = new \<and>
            (\<forall>j. j \<noteq> nat rowID \<longrightarrow> after ! j = mutableData ! j))"
proof -
  have i: "nat rowID < length mutableData"
    using assms(3,4) by simp
  have ins: "MutableInsert L mutableData autoRowID row =
      Returns ([[''id'' \<mapsto> Sprintf_d (to_int L x), ''status'' \<mapsto> ''success'']], None)
        (mutableData @ [new])"
    by (simp add: MutableInsert_def assms(1,2))
  have app: "\<forall>j<length mutableData. (mutableData @ [new]) ! j = mutableData ! j"
    by (simp add: nth_append)
  let ?del = "take (nat rowID) mutableData @ drop (Suc (nat rowID)) mutableData"
  have del: "MutableDelete mutableData rowID = Returns None ?del"
    using assms(3,4) by (rule MutableDelete_in_range)
  have len: "Suc (length ?del) = length mutableData"
    using i by simp
  have before: "\<forall>j. j < nat rowID \<longrightarrow> ?del ! j = mutableData ! j"
    using i by (simp add: delete_nth_before)
  have after: "\<forall>j. nat rowID \<le> j \<and> j < length ?del \<longrightarrow> ?del ! j = mutableData ! Suc j"
  proof (intro allI impI)
    fix j assume j: "nat rowID \<le> j \<and> j < length ?del"
    with len have "Suc j < length mutableData" by linarith
    with j show "?del ! j = mutableData ! Suc j"
      by (simp only: delete_nth_after)
  qed
  let ?upd = "mutableData[nat rowID := new]"
  have upd: "MutableUpdate L mutableData rowID row = Returns None ?upd"
    using assms(3,4) by (simp add: MutableUpdate_def assms(1,2))
  have u1: "?upd ! nat rowID = new"
    using i by simp
  have u2: "\<forall>j. j \<noteq> nat rowID \<longrightarrow> ?upd ! j = mutableData ! j"
    by simp
  show ?thesis
    using ins app del len before after upd u1 u2 by (simp del: nth_list_update_neq)
qed

theorem mutable_table_operations_witness:
  "row5678 = VFloat64 5678 # VFloat64 56789 # VFloat64 5 # VString ''again'' # [] \<and>
   (0::int) \<le> 0 \<and> (0::int) < int (length initial_mutableData) \<and>
   MutableInsert example_fmt initial_mutableData False row5678 =
     Returns ([[''id'' \<mapsto> ''5678'', ''status'' \<mapsto> ''success'']], None)
       (initial_mutableData @
        [[''i'' \<mapsto> ''5678'', ''b'' \<mapsto> ''56789'', ''d'' \<mapsto> ''5.000000'', ''t'' \<mapsto> ''again'']]) \<and>
   (initial_mutableData @
     [[''i'' \<mapsto> ''5678'', ''b'' \<mapsto> ''56789'', ''d'' \<mapsto> ''5.000000'', ''t'' \<mapsto> ''again'']]) ! 2 =
     [''i'' \<mapsto> ''5678'', ''b'' \<mapsto> ''56789'', ''d'' \<mapsto> ''5.000000'', ''t'' \<mapsto> ''again''] \<and>
   MutableDelete initial_mutableData 0 = Returns None [initial_mutableData ! 1] \<and>
   MutableUpdate example_fmt initial_mutableData 0 row5678 =
     Returns None
       [[''i'' \<mapsto> ''5678'', ''b'' \<mapsto> ''56789'', ''d'' \<mapsto> ''5.000000'', ''t'' \<mapsto> ''again''],
        initial_mutableData ! 1]"
proof -
  let ?new = "[''i'' \<mapsto> ''5678'', ''b'' \<mapsto> ''56789'', ''d'' \<mapsto> ''5.000000'', ''t'' \<mapsto> ''again'']"
  have row: "row5678 = VFloat64 5678 # VFloat64 56789 # VFloat64 5 # VString ''again'' # []"
    by (simp add: row5678_def)
  have d1: "Sprintf_d 5678 = ''5678''" and d2: "Sprintf_d 56789 = ''56789''"
    and d3: "Sprintf_d 5 = ''5''"
    by (simp_all add: Sprintf_d_def decimal.simps digit_char_def)
  have new: "?new = [''i'' \<mapsto> Sprintf_d (to_int example_fmt 5678),
      ''b'' \<mapsto> Sprintf_v example_fmt (VFloat64 56789),
      ''d'' \<mapsto> Sprintf_f example_fmt (VFloat64 5),
      ''t'' \<mapsto> Sprintf_s example_fmt (VString ''again'')]"
    by (simp add: example_fmt_def d1 d2 d3)
  have lo: "(0::int) \<le> 0" by simp
  have hi: "(0::int) < int (length initial_mutableData)"
    by (simp add: initial_mutableData_def)
  note ops = mutable_table_operations [OF row new lo hi, of False]
  have i: "MutableInsert example_fmt initial_mutableData False row5678 =
      Returns ([[''id'' \<mapsto> ''5678'', ''status'' \<mapsto> ''success'']], None)
        (initial_mutableData @ [?new])"
    by (simp add: MutableInsert_def row5678_def example_fmt_def d1 d2 d3)
  have at2: "(initial_mutableData @ [?new]) ! 2 = ?new"
    using ops by (simp add: initial_mutableData_def)
  have dl: "MutableDelete initial_mutableData 0 = Returns None [initial_mutableData ! 1]"
    by (simp add: MutableDelete_def initial_mutableData_def)
  have u: "MutableUpdate example_fmt initial_mutableData 0 row5678 =
      Returns None [?new, initial_mutableData ! 1]"
    by (simp add: MutableUpdate_def row5678_def example_fmt_def d1 d2 d3
        initial_mutableData_def)
  show ?thesis
    using row lo hi i at2 dl u by blast
qed

text \<open>
  C10. As specified, for every row index in range \<^verbatim>\<open>MutableUpdate\<close> and \<^verbatim>\<open>MutableDelete\<close>
  return a nil error, and outside it they panic on the out-of-range index. That holds of
  \<^verbatim>\<open>MutableDelete\<close>, and of \<^verbatim>\<open>MutableUpdate\<close> for a row of at least four values whose
  first is a \<^verbatim>\<open>float64\<close>; on any other row \<^verbatim>\<open>MutableUpdate\<close> panics whatever the index
  and leaves the store as it was.
\<close>

theorem mutable_update_delete_bounds:
  "(0 \<le> rowID \<and> rowID < int (length mutableData) \<longrightarrow>
      (\<exists>after. MutableDelete mutableData rowID = Returns None after) \<and>
      (well_formed_row row \<longrightarrow>
         (\<exists>after. MutableUpdate L mutableData rowID row = Returns None after))) \<and>
   (\<not> (0 \<le> rowID \<and> rowID < int (length mutableData)) \<longrightarrow>
      MutableDelete mutableData rowID = Panics SliceBoundsOutOfRange mutableData \<and>
      (well_formed_row row \<longrightarrow>
         MutableUpdate L mutableData rowID row = Panics IndexOutOfRange mutableData)) \<and>
   (\<not> well_formed_row row \<longrightarrow>
      panicked (MutableUpdate L mutableData rowID row) \<and>
      state_of (MutableUpdate L mutableData rowID row) = mutableData)"
proof (intro conjI impI)
  assume "0 \<le> rowID \<and> rowID < int (length mutableData)"
  then show "\<exists>after. MutableDelete mutableData rowID = Returns None after"
    by (simp add: MutableDelete_in_range)
next
  assume "0 \<le> rowID \<and> rowID < int (length mutableData)" and "well_formed_row row"
  then show "\<exists>after. MutableUpdate L mutableData rowID row = Returns None after"
    by (auto simp: MutableUpdate_def elim!: well_formed_rowE)
next
  assume "\<not> (0 \<le> rowID \<and> rowID < int (length mutableData))"
  then show "MutableDelete mutableData rowID = Panics SliceBoundsOutOfRange mutableData"
    by (auto simp: MutableDelete_def)
next
  assume "\<not> (0 \<le> rowID \<and> rowID < int (length mutableData))" and "well_formed_row row"
  then show "MutableUpdate L mutableData rowID row = Panics IndexOutOfRange mutableData"
    by (auto simp: MutableUpdate_def elim!: well_formed_rowE)
next
  assume "\<not> well_formed_row row"
  from row_not_well_formed [OF this, of L]
  show "panicked (MutableUpdate L mutableData rowID row)"
    by (auto simp: MutableUpdate_def)
next
  assume "\<not> well_formed_row row"
  from row_not_well_formed [OF this, of L]
  show "state_of (MutableUpdate L mutableData rowID row) = mutableData"
    by (auto simp: MutableUpdate_def)
qed

theorem mutable_update_delete_bounds_witness:
  "MutableDelete initial_mutableData 1 = Returns None [initial_mutableData ! 0] \<and>
   MutableUpdate example_fmt initial_mutableData 1 row5678 =
     Returns None
       [initial_mutableData ! 0,
        [''i'' \<mapsto> ''5678'', ''b'' \<mapsto> ''56789'', ''d'' \<mapsto> ''5.000000'', ''t'' \<mapsto> ''again'']] \<and>
   MutableDelete initial_mutableData 2 = Panics SliceBoundsOutOfRange initial_mutableData \<and>
   MutableDelete initial_mutableData (- 1) = Panics SliceBoundsOutOfRange initial_mutableData \<and>
   MutableUpdate example_fmt initial_mutableData 2 row5678 =
     Panics IndexOutOfRange initial_mutableData \<and>
   MutableUpdate example_fmt initial_mutableData (- 1) row5678 =
     Panics IndexOutOfRange initial_mutableData \<and>
   panicked (MutableUpdate example_fmt initial_mutableData 1 [VFloat64 5678, VString ''again''])"
proof -
  have wf: "well_formed_row row5678"
    by (simp add: well_formed_row_def row5678_def)
  have short: "\<not> well_formed_row [VFloat64 (5678::int), VString ''again'']"
    by (simp add: well_formed_row_def)
  have len: "length initial_mutableData = 2"
    by (simp add: initial_mutableData_def)
  have d1: "Sprintf_d 5678 = ''5678''" and d2: "Sprintf_d 56789 = ''56789''"
    and d3: "Sprintf_d 5 = ''5''"
    by (simp_all add: Sprintf_d_def decimal.simps digit_char_def)
  from mutable_update_delete_bounds [of 1 initial_mutableData row5678 example_fmt] wf len
  obtain a b where
    "MutableDelete initial_mutableData 1 = Returns None a" and
    "MutableUpdate example_fmt initial_mutableData 1 row5678 = Returns None b"
    by auto
  then have in1: "MutableDelete initial_mutableData 1 = Returns None [initial_mutableData ! 0]"
    and in2: "MutableUpdate example_fmt initial_mutableData 1 row5678 =
     Returns None
       [initial_mutableData ! 0,
        [''i'' \<mapsto> ''5678'', ''b'' \<mapsto> ''56789'', ''d'' \<mapsto> ''5.000000'', ''t'' \<mapsto> ''again'']]"
    by (simp_all add: MutableDelete_def MutableUpdate_def row5678_def example_fmt_def d1 d2 d3
        initial_mutableData_def)
  from mutable_update_delete_bounds [of 2 initial_mutableData row5678 example_fmt] wf len
  have out2: "MutableDelete initial_mutableData 2 = Panics SliceBoundsOutOfRange initial_mutableData"
    "MutableUpdate example_fmt initial_mutableData 2 row5678 =
       Panics IndexOutOfRange initial_mutableData"
    by simp_all
  from mutable_update_delete_bounds [of "- 1" initial_mutableData row5678 example_fmt] wf len
  have neg: "MutableDelete initial_mutableData (- 1) =
       Panics SliceBoundsOutOfRange initial_mutableData"
    "MutableUpdate example_fmt initial_mutableData (- 1) row5678 =
       Panics IndexOutOfRange initial_mutableData"
    by simp_all
  from mutable_update_delete_bounds
    [of 1 initial_mutableData "[VFloat64 5678, VString ''again'']" example_fmt] short
  have bad: "panicked (MutableUpdate example_fmt initial_mutableData 1
      [VFloat64 5678, VString ''again''])"
    by simp
  show ?thesis
    using in1 in2 out2 neg bad by blast
qed

text \<open>
  \<^verbatim>\<open>MutableUpdate\<close> at index 0 of the two-row store panics on an empty row and on a row
  whose first value is a string.
\<close>

theorem mutable_update_in_range_counterexample:
  "(0::int) \<le> 0 \<and> (0::int) < int (length initial_mutableData) \<and>
   MutableUpdate example_fmt initial_mutableData 0 [] =
     Panics IndexOutOfRange initial_mutableData \<and>
   MutableUpdate example_fmt initial_mutableData 0
     [VString ''5678'', VFloat64 56789, VFloat64 5, VString ''again''] =
     Panics InterfaceConversion initial_mutableData \<and>
   MutableUpdate example_fmt initial_mutableData 7
     [VString ''5678'', VFloat64 56789, VFloat64 5, VString ''again''] =
     Panics InterfaceConversion initial_mutableData"
  by (simp add: MutableUpdate_def row_id_def index_def assert_float64_def
      initial_mutableData_def)

section \<open>Run and the watchdog\<close>

lemmas observers =
  pings_def failed_pings_def sends_def sends_by_def run_events_def

lemma Shutdown_nil [simp]: "fst (Shutdown s) = None"
  by (simp add: Shutdown_def split: option.splits)

lemma Shutdown_promServer [simp]: "promServer (snd (snd (Shutdown s))) = promServer s"
  by (simp add: Shutdown_def split: option.splits)

lemma Start_setup_promServer:
  "Start_setup h s = Returns (Some e) s' \<Longrightarrow> promServer s' = promServer s"
  "Start_setup h s = Panics p s' \<Longrightarrow> promServer s' = promServer s"
  by (auto simp: Start_setup_def Let_def split: prod.splits option.splits if_splits)

lemma watchdog_inv_init: "watchdog_inv (run_init s)"
  by (simp add: watchdog_inv_def run_init_def observers)

lemma run_inv_init: "run_inv (run_init s)"
  by (simp add: run_inv_def run_init_def observers)

lemma metrics_inv_init: "promServer s = None \<Longrightarrow> metrics_inv (run_init s)"
  by (simp add: metrics_inv_def run_init_def)

lemma watchdog_inv_frame:
  assumes "watchdog_pc st' = watchdog_pc st"
      and "failed_pings (trace st') = failed_pings (trace st)"
      and "pings (trace st') = pings (trace st)"
      and "sends_by WatchdogG (trace st') = sends_by WatchdogG (trace st)"
  shows "watchdog_inv st' = watchdog_inv st"
  by (simp add: watchdog_inv_def assms split: watchdog_pc.splits)

lemma run_inv_frame:
  assumes "run_pc st' = run_pc st"
      and "sends (trace st') = sends (trace st)"
      and "run_events (trace st') = run_events (trace st)"
  shows "run_inv st' = run_inv st"
  by (simp add: run_inv_def assms split: run_pc.splits)

lemma watchdog_inv_Run_step: "watchdog_inv st \<Longrightarrow> watchdog_inv (Run_step st)"
proof (cases "run_pc st")
  case Receiving
  then show "watchdog_inv st \<Longrightarrow> watchdog_inv (Run_step st)"
    by (simp add: Run_step_def)
next
  case (Received e)
  then have "watchdog_inv (Run_step st) = watchdog_inv st"
    by (intro watchdog_inv_frame) (simp_all add: Run_step_def observers)
  then show "watchdog_inv st \<Longrightarrow> watchdog_inv (Run_step st)" by simp
next
  case (ShuttingDown e)
  then have "watchdog_inv (Run_step st) = watchdog_inv st"
    by (intro watchdog_inv_frame)
       (simp_all add: Run_step_def observers filter_empty_conv split: prod.splits)
  then show "watchdog_inv st \<Longrightarrow> watchdog_inv (Run_step st)" by simp
next
  case (Returned e)
  then show "watchdog_inv st \<Longrightarrow> watchdog_inv (Run_step st)"
    by (simp add: Run_step_def)
qed

lemma watchdog_inv_Start_step: "watchdog_inv st \<Longrightarrow> watchdog_inv (Start_step h st)"
proof (cases "start_pc st")
  case StartBegin
  then have "watchdog_inv (Start_step h st) = watchdog_inv st"
    by (intro watchdog_inv_frame)
       (simp_all add: Start_step_def observers split: outcome.splits option.splits)
  then show "watchdog_inv st \<Longrightarrow> watchdog_inv (Start_step h st)" by simp
next
  case Serving
  then have "watchdog_inv (Start_step h st) = watchdog_inv st"
    by (intro watchdog_inv_frame) (simp_all add: Start_step_def)
  then show "watchdog_inv st \<Longrightarrow> watchdog_inv (Start_step h st)" by simp
next
  case (StartSend e)
  then have "watchdog_inv (Start_step h st) = watchdog_inv st"
    by (intro watchdog_inv_frame) (simp_all add: Start_step_def observers)
  then show "watchdog_inv st \<Longrightarrow> watchdog_inv (Start_step h st)" by simp
next
  case StartDone
  then show "watchdog_inv st \<Longrightarrow> watchdog_inv (Start_step h st)"
    by (simp add: Start_step_def)
qed

lemma watchdog_inv_Watchdog_step:
  assumes "watchdog_inv st"
  shows "watchdog_inv (Watchdog_step h st)"
proof (cases "watchdog_pc st")
  case (Sleeping n)
  with assms have quiet: "failed_pings (trace st) = []" "sends_by WatchdogG (trace st) = []"
    by (simp_all add: watchdog_inv_def)
  obtain status e where a: "HostPing h n = (status, e)"
    by (cases "HostPing h n")
  show ?thesis
  proof (cases e)
    case (Some e')
    then show ?thesis
      using Sleeping a quiet
      by (simp add: Watchdog_step_def watchdog_inv_def observers split: option.splits)
  next
    case None
    show ?thesis
    proof (cases status)
      case None
      with \<open>e = None\<close> show ?thesis
        using Sleeping a quiet by (simp add: Watchdog_step_def watchdog_inv_def observers)
    next
      case (Some status')
      with \<open>e = None\<close> show ?thesis
        using Sleeping a quiet by (simp add: Watchdog_step_def watchdog_inv_def observers)
    qed
  qed
next
  case (WatchdogSend e)
  with assms show ?thesis
    by (simp add: Watchdog_step_def watchdog_inv_def observers)
next
  case WatchdogDone
  with assms show ?thesis
    by (simp add: Watchdog_step_def)
qed

lemma watchdog_inv_step: "watchdog_inv st \<Longrightarrow> watchdog_inv (step h g st)"
  by (simp add: step_def watchdog_inv_Run_step watchdog_inv_Start_step
      watchdog_inv_Watchdog_step split: goroutine.splits)

lemma run_inv_Run_step:
  assumes "run_inv st"
  shows "run_inv (Run_step st)"
proof (cases "run_pc st")
  case Receiving
  with assms show ?thesis by (simp add: Run_step_def)
next
  case (Received e)
  with assms show ?thesis
    by (simp add: Run_step_def run_inv_def observers)
next
  case (ShuttingDown e)
  obtain r stops s' where sh: "Shutdown (srv st) = (r, stops, s')"
    by (cases "Shutdown (srv st)")
  then have "r = None"
    using Shutdown_nil [of "srv st"] by simp
  with assms ShuttingDown sh show ?thesis
    by (simp add: Run_step_def run_inv_def observers filter_empty_conv)
next
  case (Returned e)
  with assms show ?thesis by (simp add: Run_step_def)
qed

lemma run_inv_Start_step:
  assumes "run_inv st"
  shows "run_inv (Start_step h st)"
proof (cases "start_pc st")
  case StartBegin
  then have "run_inv (Start_step h st) = run_inv st"
    by (intro run_inv_frame)
       (simp_all add: Start_step_def observers split: outcome.splits option.splits)
  with assms show ?thesis by simp
next
  case Serving
  then have "run_inv (Start_step h st) = run_inv st"
    by (intro run_inv_frame) (simp_all add: Start_step_def)
  with assms show ?thesis by simp
next
  case (StartSend e)
  show ?thesis
  proof (cases "run_pc st = Receiving")
    case True
    with assms StartSend show ?thesis
      by (simp add: Start_step_def run_inv_def observers)
  next
    case False
    with assms StartSend show ?thesis
      by (simp add: Start_step_def)
  qed
next
  case StartDone
  with assms show ?thesis by (simp add: Start_step_def)
qed

lemma run_inv_Watchdog_step:
  assumes "run_inv st"
  shows "run_inv (Watchdog_step h st)"
proof (cases "watchdog_pc st")
  case (Sleeping n)
  then have "run_inv (Watchdog_step h st) = run_inv st"
    by (intro run_inv_frame)
       (simp_all add: Watchdog_step_def observers split: prod.splits option.splits)
  with assms show ?thesis by simp
next
  case (WatchdogSend e)
  show ?thesis
  proof (cases "run_pc st = Receiving")
    case True
    with assms WatchdogSend show ?thesis
      by (simp add: Watchdog_step_def run_inv_def observers)
  next
    case False
    with assms WatchdogSend show ?thesis
      by (simp add: Watchdog_step_def)
  qed
next
  case WatchdogDone
  with assms show ?thesis by (simp add: Watchdog_step_def)
qed

lemma run_inv_step: "run_inv st \<Longrightarrow> run_inv (step h g st)"
  by (simp add: step_def run_inv_Run_step run_inv_Start_step run_inv_Watchdog_step
      split: goroutine.splits)

lemma metrics_inv_Run_step:
  assumes "metrics_inv st"
  shows "metrics_inv (Run_step st)"
proof (cases "run_pc st")
  case Receiving
  with assms show ?thesis by (simp add: Run_step_def)
next
  case (Received e)
  with assms show ?thesis
    by (auto simp: Run_step_def metrics_inv_def)
next
  case (ShuttingDown e)
  obtain r stops s' where sh: "Shutdown (srv st) = (r, stops, s')"
    by (cases "Shutdown (srv st)")
  then have "promServer s' = promServer (srv st)"
    using Shutdown_promServer [of "srv st"] by simp
  with assms ShuttingDown sh show ?thesis
    by (auto simp: Run_step_def metrics_inv_def)
next
  case (Returned e)
  with assms show ?thesis by (simp add: Run_step_def)
qed

lemma metrics_inv_Start_step:
  assumes "metrics_inv st"
  shows "metrics_inv (Start_step h st)"
proof (cases "start_pc st")
  case StartBegin
  with assms have none: "promServer (srv st) = None" "MetricsServing \<notin> set (trace st)"
    "PromShutdown \<notin> set (trace st)"
    by (auto simp: metrics_inv_def)
  show ?thesis
  proof (cases "Start_setup h (srv st)")
    case (Panics p s')
    then have "promServer s' = None"
      using Start_setup_promServer(2) none(1) by fastforce
    with Panics StartBegin none show ?thesis
      by (simp add: Start_step_def metrics_inv_def)
  next
    case (Returns r s')
    show ?thesis
    proof (cases r)
      case (Some e)
      with Returns have "promServer s' = None"
        using Start_setup_promServer(1) none(1) by fastforce
      with Returns Some StartBegin none show ?thesis
        by (simp add: Start_step_def metrics_inv_def)
    next
      case None
      with Returns StartBegin none show ?thesis
        by (simp add: Start_step_def metrics_inv_def)
    qed
  qed
next
  case Serving
  with assms show ?thesis by (simp add: Start_step_def metrics_inv_def)
next
  case (StartSend e)
  with assms show ?thesis by (simp add: Start_step_def metrics_inv_def)
next
  case StartDone
  with assms show ?thesis by (simp add: Start_step_def)
qed

lemma metrics_inv_Watchdog_step:
  assumes "metrics_inv st"
  shows "metrics_inv (Watchdog_step h st)"
proof (cases "watchdog_pc st")
  case (Sleeping n)
  with assms show ?thesis
    by (simp add: Watchdog_step_def metrics_inv_def split: prod.splits option.splits)
next
  case (WatchdogSend e)
  with assms show ?thesis by (simp add: Watchdog_step_def metrics_inv_def)
next
  case WatchdogDone
  with assms show ?thesis by (simp add: Watchdog_step_def)
qed

lemma metrics_inv_step: "metrics_inv st \<Longrightarrow> metrics_inv (step h g st)"
  by (simp add: step_def metrics_inv_Run_step metrics_inv_Start_step
      metrics_inv_Watchdog_step split: goroutine.splits)

lemma exec_invariants:
  "watchdog_inv st \<Longrightarrow> run_inv st \<Longrightarrow>
     watchdog_inv (exec h sched st) \<and> run_inv (exec h sched st)"
  by (induction sched arbitrary: st) (simp_all add: watchdog_inv_step run_inv_step)

lemma exec_metrics_inv: "metrics_inv st \<Longrightarrow> metrics_inv (exec h sched st)"
  by (induction sched arbitrary: st) (simp_all add: metrics_inv_step)

lemma crashed_step: "crashed st \<noteq> None \<Longrightarrow> step h g st = st"
  by (simp add: step_def)

lemma crashed_exec: "crashed st \<noteq> None \<Longrightarrow> exec h sched st = st"
  by (induction sched arbitrary: st) (simp_all add: crashed_step)

lemma exec_append: "exec h (xs @ ys) st = exec h ys (exec h xs st)"
  by (induction xs arbitrary: st) simp_all

lemma run_pc_other_step:
  assumes "run_pc st \<noteq> Receiving" and "g \<noteq> RunG"
  shows "run_pc (step h g st) = run_pc st"
proof (cases g)
  case RunG
  with assms show ?thesis by simp
next
  case StartG
  with assms(1) show ?thesis
    by (simp add: step_def Start_step_def
        split: start_pc.splits outcome.splits option.splits)
next
  case WatchdogG
  with assms(1) show ?thesis
    by (simp add: step_def Watchdog_step_def
        split: watchdog_pc.splits prod.splits option.splits)
qed

lemma run_pc_Run_step:
  "run_pc (Run_step st) =
     (case run_pc st of
        Receiving \<Rightarrow> Receiving
      | Received e \<Rightarrow> ShuttingDown e
      | ShuttingDown e \<Rightarrow> Returned e
      | Returned e \<Rightarrow> Returned e)"
proof (cases "run_pc st")
  case (ShuttingDown e)
  obtain r stops s' where sh: "Shutdown (srv st) = (r, stops, s')"
    by (cases "Shutdown (srv st)")
  then have "r = None"
    using Shutdown_nil [of "srv st"] by simp
  with ShuttingDown sh show ?thesis
    by (simp add: Run_step_def)
qed (simp_all add: Run_step_def)

lemma received_stays:
  "run_pc st \<noteq> Receiving \<Longrightarrow> run_pc (step h g st) \<noteq> Receiving"
proof (cases g)
  case RunG
  assume "run_pc st \<noteq> Receiving"
  with RunG show ?thesis
    by (simp add: step_def run_pc_Run_step split: run_pc.splits)
qed (simp_all add: run_pc_other_step)

lemma watchdog_blocked_step:
  assumes "watchdog_pc st = WatchdogSend e" and "run_pc st \<noteq> Receiving"
  shows "watchdog_pc (step h g st) = WatchdogSend e \<and>
         sends_by WatchdogG (trace (step h g st)) = sends_by WatchdogG (trace st)"
proof (cases g)
  case RunG
  with assms show ?thesis
    by (simp add: step_def Run_step_def observers filter_empty_conv
        split: run_pc.splits prod.splits)
next
  case StartG
  with assms show ?thesis
    by (simp add: step_def Start_step_def observers
        split: start_pc.splits outcome.splits option.splits)
next
  case WatchdogG
  with assms show ?thesis
    by (simp add: step_def Watchdog_step_def)
qed

lemma watchdog_blocked_exec:
  "watchdog_pc st = WatchdogSend e \<Longrightarrow> run_pc st \<noteq> Receiving \<Longrightarrow>
   watchdog_pc (exec h sched st) = WatchdogSend e \<and>
   sends_by WatchdogG (trace (exec h sched st)) = sends_by WatchdogG (trace st)"
proof (induction sched arbitrary: st)
  case Nil
  then show ?case by simp
next
  case (Cons g sched)
  from watchdog_blocked_step [OF Cons.prems, of h g] received_stays [OF Cons.prems(2), of h g]
  have "watchdog_pc (exec h sched (step h g st)) = WatchdogSend e \<and>
        sends_by WatchdogG (trace (exec h sched (step h g st))) =
          sends_by WatchdogG (trace (step h g st))"
    by (intro Cons.IH) simp_all
  with watchdog_blocked_step [OF Cons.prems, of h g] show ?case by simp
qed

lemma watchdog_send_completes:
  assumes "watchdog_pc st = WatchdogSend e" and "run_pc st = Receiving" and "crashed st = None"
  shows "step h WatchdogG st =
           st\<lparr>trace := trace st @ [Sent WatchdogG (Some e)], run_pc := Received (Some e),
              watchdog_pc := WatchdogDone\<rparr>"
  using assms by (simp add: step_def Watchdog_step_def)

lemma Run_finishes:
  "received_value (run_pc st) = Some e \<Longrightarrow> steps_left (run_pc st) \<le> count_list sched RunG \<Longrightarrow>
   crashed (exec h sched st) = None \<Longrightarrow> run_pc (exec h sched st) = Returned e"
proof (induction sched arbitrary: st)
  case Nil
  then show ?case by (cases "run_pc st") simp_all
next
  case (Cons g sched)
  have alive: "crashed st = None"
  proof (rule ccontr)
    assume "crashed st \<noteq> None"
    then have "exec h (g # sched) st = st" by (rule crashed_exec)
    with Cons.prems(3) \<open>crashed st \<noteq> None\<close> show False by simp
  qed
  have recv: "run_pc st \<noteq> Receiving"
    using Cons.prems(1) by (cases "run_pc st") simp_all
  show ?case
  proof (cases "g = RunG")
    case True
    then have pc: "run_pc (step h g st) =
        (case run_pc st of Receiving \<Rightarrow> Receiving | Received e \<Rightarrow> ShuttingDown e
         | ShuttingDown e \<Rightarrow> Returned e | Returned e \<Rightarrow> Returned e)"
      using alive by (simp add: step_def run_pc_Run_step)
    have "run_pc (exec h sched (step h g st)) = Returned e"
    proof (rule Cons.IH)
      show "received_value (run_pc (step h g st)) = Some e"
        using Cons.prems(1) pc by (cases "run_pc st") simp_all
      show "steps_left (run_pc (step h g st)) \<le> count_list sched RunG"
        using Cons.prems(2) pc True by (cases "run_pc st") simp_all
      show "crashed (exec h sched (step h g st)) = None"
        using Cons.prems(3) by simp
    qed
    then show ?thesis by simp
  next
    case False
    then have pc: "run_pc (step h g st) = run_pc st"
      using recv by (simp add: run_pc_other_step)
    have "run_pc (exec h sched (step h g st)) = Returned e"
    proof (rule Cons.IH)
      show "received_value (run_pc (step h g st)) = Some e"
        using Cons.prems(1) pc by simp
      show "steps_left (run_pc (step h g st)) \<le> count_list sched RunG"
        using Cons.prems(2) pc False by simp
      show "crashed (exec h sched (step h g st)) = None"
        using Cons.prems(3) by simp
    qed
    then show ?thesis by simp
  qed
qed

lemma Run_handles:
  assumes "run_pc st = Received e" and "crashed st = None"
  shows "exec h [RunG, RunG] st =
           st\<lparr>srv := snd (snd (Shutdown (srv st))),
              trace := trace st @ (if promServer (srv st) \<noteq> None then [PromShutdown] else []) @
                       [ShutdownCalled] @ map StopSpawned (fst (snd (Shutdown (srv st)))),
              run_pc := Returned e\<rparr>"
proof -
  obtain r stops s' where sh: "Shutdown (srv st) = (r, stops, s')"
    by (cases "Shutdown (srv st)")
  then have "r = None"
    using Shutdown_nil [of "srv st"] by simp
  with assms sh show ?thesis
    by (simp add: step_def Run_step_def)
qed

lemma reachable_invariants:
  "watchdog_inv (exec h sched (run_init s)) \<and> run_inv (exec h sched (run_init s))"
  by (rule exec_invariants) (simp_all add: watchdog_inv_init run_inv_init)

lemma Shutdown_count: "filter ((=) ShutdownCalled) tr = filter ((=) ShutdownCalled) (run_events tr)"
proof -
  have "filter ((=) ShutdownCalled) (run_events tr) =
        filter (\<lambda>ev. is_run_event ev \<and> ShutdownCalled = ev) tr"
    by (simp add: run_events_def)
  also have "\<dots> = filter ((=) ShutdownCalled) tr"
    by (rule filter_cong) auto
  finally show ?thesis by simp
qed

lemma run_events_set: "set (run_events tr) = {ev \<in> set tr. is_run_event ev}"
  by (simp add: run_events_def)

lemmas run_model =
  step_def Run_step_def Start_step_def Watchdog_step_def Start_setup_def Shutdown_def
  run_init_def departing_host_def example_server_def StatusOK_def Wrap_def Sprintf_d_def
  decimal.simps digit_char_def Let_def watchdog_wins_def serve_loop_wins_def listening_def

lemma watchdog_wins_run:
  "trace (exec departing_host watchdog_wins (run_init example_server)) =
     [MetricsServing, Pinged 0 (Some StatusOK, None), Pinged 1 (None, Some ''broken pipe''),
      Sent WatchdogG (Some ''extension ping failed: broken pipe''),
      PromShutdown, ShutdownCalled, StopSpawned listening]"
  "run_pc (exec departing_host watchdog_wins (run_init example_server)) =
     Returned (Some ''extension ping failed: broken pipe'')"
  "watchdog_pc (exec departing_host watchdog_wins (run_init example_server)) = WatchdogDone"
  "start_pc (exec departing_host watchdog_wins (run_init example_server)) =
     StartSend (Some ''accept: use of closed network connection'')"
  "crashed (exec departing_host watchdog_wins (run_init example_server)) = None"
  by (simp_all add: run_model)

lemma serve_loop_wins_run:
  "trace (exec departing_host serve_loop_wins (run_init example_server)) =
     [MetricsServing, Pinged 0 (Some StatusOK, None),
      Sent StartG (Some ''accept: use of closed network connection''),
      Pinged 1 (None, Some ''broken pipe''),
      PromShutdown, ShutdownCalled, StopSpawned listening]"
  "run_pc (exec departing_host serve_loop_wins (run_init example_server)) =
     Returned (Some ''accept: use of closed network connection'')"
  "watchdog_pc (exec departing_host serve_loop_wins (run_init example_server)) =
     WatchdogSend ''extension ping failed: broken pipe''"
  "start_pc (exec departing_host serve_loop_wins (run_init example_server)) = StartDone"
  "crashed (exec departing_host serve_loop_wins (run_init example_server)) = None"
  by (simp_all add: run_model)

text \<open>
  C7. As specified, once a ping fails the watchdog sends exactly one failure on the channel
  and leaves its loop, and the server terminates once however many pings fail. In every
  execution at most one failed ping is made and no ping follows it, the watchdog completes
  at most one send, \<^verbatim>\<open>Run\<close> receives at most one value and calls \<^verbatim>\<open>Shutdown\<close> at most
  once. The send of the watchdog completes, and the watchdog leaves its loop, when
  \<^verbatim>\<open>Run\<close> is still waiting to receive; when \<^verbatim>\<open>Run\<close> has already received what
  \<^verbatim>\<open>Start\<close> returned, the watchdog stays at its send in every continuation and nothing
  is sent.
\<close>

theorem watchdog_fails_once:
  assumes "st = exec h sched (run_init s)"
  shows "length (failed_pings (trace st)) \<le> 1 \<and>
         (failed_pings (trace st) \<noteq> [] \<longrightarrow>
            is_failed_ping (last (pings (trace st))) \<and>
            (watchdog_pc st = WatchdogDone \<or> (\<exists>e. watchdog_pc st = WatchdogSend e))) \<and>
         length (sends_by WatchdogG (trace st)) \<le> 1 \<and>
         ((watchdog_pc st = WatchdogDone) = (length (sends_by WatchdogG (trace st)) = 1)) \<and>
         (\<forall>e. watchdog_pc st = WatchdogSend e \<and> run_pc st = Receiving \<and> crashed st = None \<longrightarrow>
            step h WatchdogG st =
              st\<lparr>trace := trace st @ [Sent WatchdogG (Some e)], run_pc := Received (Some e),
                 watchdog_pc := WatchdogDone\<rparr>) \<and>
         (\<forall>e sched'. watchdog_pc st = WatchdogSend e \<and> run_pc st \<noteq> Receiving \<longrightarrow>
            watchdog_pc (exec h sched' st) = WatchdogSend e \<and>
            sends_by WatchdogG (trace (exec h sched' st)) = []) \<and>
         length (sends (trace st)) \<le> 1 \<and>
         length (filter ((=) ShutdownCalled) (trace st)) \<le> 1"
proof -
  from reachable_invariants [of h sched s] assms
  have w: "watchdog_inv st" and r: "run_inv st"
    by simp_all
  have a: "length (failed_pings (trace st)) \<le> 1"
    using w by (cases "watchdog_pc st") (simp_all add: watchdog_inv_def)
  have b: "failed_pings (trace st) \<noteq> [] \<longrightarrow>
            is_failed_ping (last (pings (trace st))) \<and>
            (watchdog_pc st = WatchdogDone \<or> (\<exists>e. watchdog_pc st = WatchdogSend e))"
    using w by (cases "watchdog_pc st") (simp_all add: watchdog_inv_def)
  have c: "length (sends_by WatchdogG (trace st)) \<le> 1"
    using w by (cases "watchdog_pc st") (simp_all add: watchdog_inv_def)
  have d: "(watchdog_pc st = WatchdogDone) = (length (sends_by WatchdogG (trace st)) = 1)"
    using w by (cases "watchdog_pc st") (simp_all add: watchdog_inv_def)
  have e: "\<forall>e. watchdog_pc st = WatchdogSend e \<and> run_pc st = Receiving \<and> crashed st = None \<longrightarrow>
            step h WatchdogG st =
              st\<lparr>trace := trace st @ [Sent WatchdogG (Some e)], run_pc := Received (Some e),
                 watchdog_pc := WatchdogDone\<rparr>"
    by (simp add: watchdog_send_completes)
  have f: "\<forall>e sched'. watchdog_pc st = WatchdogSend e \<and> run_pc st \<noteq> Receiving \<longrightarrow>
            watchdog_pc (exec h sched' st) = WatchdogSend e \<and>
            sends_by WatchdogG (trace (exec h sched' st)) = []"
  proof (intro allI impI)
    fix e sched'
    assume blocked: "watchdog_pc st = WatchdogSend e \<and> run_pc st \<noteq> Receiving"
    then have "sends_by WatchdogG (trace st) = []"
      using w by (simp add: watchdog_inv_def)
    with watchdog_blocked_exec [of st e h sched'] blocked
    show "watchdog_pc (exec h sched' st) = WatchdogSend e \<and>
          sends_by WatchdogG (trace (exec h sched' st)) = []"
      by simp
  qed
  have g: "length (sends (trace st)) \<le> 1"
    using r by (cases "run_pc st") (auto simp: run_inv_def)
  have "length (run_events (trace st)) \<le> 2 \<and>
        length (filter ((=) ShutdownCalled) (run_events (trace st))) \<le> 1"
    using r by (cases "run_pc st") (auto simp: run_inv_def)
  then have i: "length (filter ((=) ShutdownCalled) (trace st)) \<le> 1"
    by (simp add: Shutdown_count [of "trace st"])
  from a b c d e f g i show ?thesis
    by blast
qed

theorem watchdog_fails_once_witness:
  "failed_pings (trace (exec departing_host watchdog_wins (run_init example_server))) =
     [Pinged 1 (None, Some ''broken pipe'')] \<and>
   sends_by WatchdogG (trace (exec departing_host watchdog_wins (run_init example_server))) =
     [Sent WatchdogG (Some ''extension ping failed: broken pipe'')] \<and>
   watchdog_pc (exec departing_host watchdog_wins (run_init example_server)) = WatchdogDone \<and>
   length (filter ((=) ShutdownCalled)
     (trace (exec departing_host watchdog_wins (run_init example_server)))) = 1 \<and>
   watchdog_pc (exec departing_host [StartG, WatchdogG, WatchdogG] (run_init example_server)) =
     WatchdogSend ''extension ping failed: broken pipe'' \<and>
   run_pc (exec departing_host [StartG, WatchdogG, WatchdogG] (run_init example_server)) =
     Receiving \<and>
   run_pc (step departing_host WatchdogG
     (exec departing_host [StartG, WatchdogG, WatchdogG] (run_init example_server))) =
     Received (Some ''extension ping failed: broken pipe'') \<and>
   watchdog_pc (exec departing_host serve_loop_wins (run_init example_server)) =
     WatchdogSend ''extension ping failed: broken pipe'' \<and>
   run_pc (exec departing_host serve_loop_wins (run_init example_server)) \<noteq> Receiving \<and>
   watchdog_pc (exec departing_host [WatchdogG, RunG, StartG, WatchdogG]
     (exec departing_host serve_loop_wins (run_init example_server))) =
     WatchdogSend ''extension ping failed: broken pipe''"
proof -
  let ?won = "exec departing_host watchdog_wins (run_init example_server)"
  let ?ready = "exec departing_host [StartG, WatchdogG, WatchdogG] (run_init example_server)"
  let ?lost = "exec departing_host serve_loop_wins (run_init example_server)"
  note won = watchdog_fails_once [of ?won departing_host watchdog_wins example_server, OF refl]
  note ready = watchdog_fails_once
    [of ?ready departing_host "[StartG, WatchdogG, WatchdogG]" example_server, OF refl]
  note lost = watchdog_fails_once [of ?lost departing_host serve_loop_wins example_server, OF refl]
  have w1: "failed_pings (trace ?won) = [Pinged 1 (None, Some ''broken pipe'')]"
    and w2: "sends_by WatchdogG (trace ?won) =
      [Sent WatchdogG (Some ''extension ping failed: broken pipe'')]"
    by (simp_all add: watchdog_wins_run observers StatusOK_def)
  have w3: "watchdog_pc ?won = WatchdogDone"
    using won w2 by simp
  have w4: "length (filter ((=) ShutdownCalled) (trace ?won)) = 1"
    by (simp add: watchdog_wins_run)
  have r1: "watchdog_pc ?ready = WatchdogSend ''extension ping failed: broken pipe''"
    and r2: "run_pc ?ready = Receiving" and r3: "crashed ?ready = None"
    by (simp_all add: run_model)
  from ready r1 r2 r3 have "step departing_host WatchdogG ?ready =
      ?ready\<lparr>trace := trace ?ready @ [Sent WatchdogG (Some ''extension ping failed: broken pipe'')],
        run_pc := Received (Some ''extension ping failed: broken pipe''),
        watchdog_pc := WatchdogDone\<rparr>"
    by blast
  then have r4: "run_pc (step departing_host WatchdogG ?ready) =
      Received (Some ''extension ping failed: broken pipe'')"
    by simp
  have l1: "watchdog_pc ?lost = WatchdogSend ''extension ping failed: broken pipe''"
    and l2: "run_pc ?lost \<noteq> Receiving"
    by (simp_all add: serve_loop_wins_run)
  from lost l1 l2 have l3: "watchdog_pc (exec departing_host [WatchdogG, RunG, StartG, WatchdogG] ?lost) =
      WatchdogSend ''extension ping failed: broken pipe''"
    by blast
  from w1 w2 w3 w4 r1 r2 r4 l1 l2 l3 show ?thesis
    by blast
qed

text \<open>
  The serve loop ends and its error reaches \<^verbatim>\<open>Run\<close> before the second ping fails: the
  watchdog has made a failed ping, has sent nothing, is still at its send after \<^verbatim>\<open>Run\<close>
  has returned, and further steps change nothing.
\<close>

theorem watchdog_send_counterexample:
  "HostPing departing_host 1 = (None, Some ''broken pipe'') \<and>
   failed_pings (trace (exec departing_host serve_loop_wins (run_init example_server))) =
     [Pinged 1 (None, Some ''broken pipe'')] \<and>
   sends_by WatchdogG (trace (exec departing_host serve_loop_wins (run_init example_server))) = [] \<and>
   watchdog_pc (exec departing_host serve_loop_wins (run_init example_server)) =
     WatchdogSend ''extension ping failed: broken pipe'' \<and>
   run_pc (exec departing_host serve_loop_wins (run_init example_server)) =
     Returned (Some ''accept: use of closed network connection'') \<and>
   exec departing_host [WatchdogG, WatchdogG, StartG, RunG]
     (exec departing_host serve_loop_wins (run_init example_server)) =
     exec departing_host serve_loop_wins (run_init example_server)"
proof -
  let ?lost = "exec departing_host serve_loop_wins (run_init example_server)"
  have "exec departing_host [WatchdogG, WatchdogG, StartG, RunG] ?lost = ?lost"
    by (simp add: step_def Run_step_def Start_step_def Watchdog_step_def serve_loop_wins_run)
  moreover have "HostPing departing_host 1 = (None, Some ''broken pipe'')"
    by (simp add: departing_host_def)
  moreover have "failed_pings (trace ?lost) = [Pinged 1 (None, Some ''broken pipe'')]"
    and "sends_by WatchdogG (trace ?lost) = []"
    by (simp_all add: serve_loop_wins_run observers StatusOK_def)
  ultimately show ?thesis
    by (simp add: serve_loop_wins_run)
qed

text \<open>
  A server as the constructor returns it, and as \<^verbatim>\<open>RegisterPlugin\<close> leaves it, has no
  metrics endpoint yet.
\<close>

lemma exported_option_promServer:
  "exported_option opt \<Longrightarrow> promServer (opt s) = promServer s"
  by (induction rule: exported_option.induct)
     (simp_all add: ServerVersion_def ServerTimeout_def ServerPingInterval_def
        ServerPrometheusPort_def)

lemma fold_options_promServer:
  "\<forall>opt\<in>set opts. exported_option opt \<Longrightarrow>
     promServer (fold (\<lambda>opt m. opt m) opts s) = promServer s"
  by (induction opts arbitrary: s) (simp_all add: exported_option_promServer)

lemma New_promServer:
  assumes "NewExtensionManagerServer nm path opts NewClient = Inr s"
      and "\<forall>opt\<in>set opts. exported_option opt"
  shows "promServer s = None"
proof -
  from assms(1) obtain m where
    s: "s = fold (\<lambda>opt m. opt m) opts m" and m: "promServer m = None"
    by (auto simp: NewExtensionManagerServer_def Let_def split: option.splits)
  then show ?thesis
    using assms(2) by (simp add: fold_options_promServer)
qed

lemma RegisterPlugin_promServer:
  "promServer (state_of (RegisterPlugin s plugins)) = promServer s"
  by (induction plugins arbitrary: s) (simp_all split: option.splits)

text \<open>
  C8. \<^verbatim>\<open>Run\<close> receives one value, sent either by the goroutine of \<^verbatim>\<open>Start\<close> or by the
  watchdog, and what it does next is the same function of the server and of that value:
  the metrics endpoint is shut down if there is one (there is one exactly when \<^verbatim>\<open>Start\<close>
  has launched it), then \<^verbatim>\<open>Shutdown\<close> is called and the value received is returned.
  Once \<^verbatim>\<open>Run\<close> has received, nothing blocks it: in every continuation that gives it
  its remaining steps and in which the process does not panic, it returns with
  \<^verbatim>\<open>Shutdown\<close> called.
\<close>

theorem Run_shuts_down:
  assumes "promServer s = None" and "st = exec h sched (run_init s)"
  shows "(run_pc st = Receiving \<longrightarrow> sends (trace st) = [] \<and> run_events (trace st) = []) \<and>
         (\<forall>e. received_value (run_pc st) = Some e \<longrightarrow>
            (sends (trace st) = [Sent StartG e] \<or> sends (trace st) = [Sent WatchdogG e]) \<and>
            (run_pc st = Received e \<and> crashed st = None \<longrightarrow>
               exec h [RunG, RunG] st =
                 st\<lparr>srv := snd (snd (Shutdown (srv st))),
                    trace := trace st @
                      (if promServer (srv st) \<noteq> None then [PromShutdown] else []) @
                      [ShutdownCalled] @ map StopSpawned (fst (snd (Shutdown (srv st)))),
                    run_pc := Returned e\<rparr>) \<and>
            (\<forall>sched'. steps_left (run_pc st) \<le> count_list sched' RunG \<and>
                 crashed (exec h sched' st) = None \<longrightarrow>
               run_pc (exec h sched' st) = Returned e \<and>
               ShutdownCalled \<in> set (trace (exec h sched' st)))) \<and>
         (run_events (trace st) = [] \<or> run_events (trace st) = [PromShutdown] \<or>
          run_events (trace st) = [ShutdownCalled] \<or>
          run_events (trace st) = [PromShutdown, ShutdownCalled]) \<and>
         ((\<exists>e. run_pc st = Returned e) = (ShutdownCalled \<in> set (trace st))) \<and>
         ((promServer (srv st) \<noteq> None) = (MetricsServing \<in> set (trace st))) \<and>
         (PromShutdown \<in> set (trace st) \<longrightarrow> MetricsServing \<in> set (trace st))"
proof -
  from reachable_invariants [of h sched s] assms(2)
  have r: "run_inv st"
    by simp
  have m: "metrics_inv st"
    unfolding assms(2) using assms(1) by (intro exec_metrics_inv metrics_inv_init)
  have a: "run_pc st = Receiving \<longrightarrow> sends (trace st) = [] \<and> run_events (trace st) = []"
    using r by (cases "run_pc st") (simp_all add: run_inv_def)
  have b: "\<forall>e. received_value (run_pc st) = Some e \<longrightarrow>
            (sends (trace st) = [Sent StartG e] \<or> sends (trace st) = [Sent WatchdogG e]) \<and>
            (run_pc st = Received e \<and> crashed st = None \<longrightarrow>
               exec h [RunG, RunG] st =
                 st\<lparr>srv := snd (snd (Shutdown (srv st))),
                    trace := trace st @
                      (if promServer (srv st) \<noteq> None then [PromShutdown] else []) @
                      [ShutdownCalled] @ map StopSpawned (fst (snd (Shutdown (srv st)))),
                    run_pc := Returned e\<rparr>) \<and>
            (\<forall>sched'. steps_left (run_pc st) \<le> count_list sched' RunG \<and>
                 crashed (exec h sched' st) = None \<longrightarrow>
               run_pc (exec h sched' st) = Returned e \<and>
               ShutdownCalled \<in> set (trace (exec h sched' st)))"
  proof (intro allI impI conjI)
    fix e assume v: "received_value (run_pc st) = Some e"
    then show "sends (trace st) = [Sent StartG e] \<or> sends (trace st) = [Sent WatchdogG e]"
      using r by (cases "run_pc st") (simp_all add: run_inv_def)
  next
    fix e assume "run_pc st = Received e \<and> crashed st = None"
    then show "exec h [RunG, RunG] st =
                 st\<lparr>srv := snd (snd (Shutdown (srv st))),
                    trace := trace st @
                      (if promServer (srv st) \<noteq> None then [PromShutdown] else []) @
                      [ShutdownCalled] @ map StopSpawned (fst (snd (Shutdown (srv st)))),
                    run_pc := Returned e\<rparr>"
      by (simp only: Run_handles)
  next
    fix e sched'
    assume v: "received_value (run_pc st) = Some e"
      and "steps_left (run_pc st) \<le> count_list sched' RunG \<and>
           crashed (exec h sched' st) = None"
    then show "run_pc (exec h sched' st) = Returned e"
      by (simp add: Run_finishes)
  next
    fix e sched'
    assume v: "received_value (run_pc st) = Some e"
      and "steps_left (run_pc st) \<le> count_list sched' RunG \<and>
           crashed (exec h sched' st) = None"
    then have ret: "run_pc (exec h sched' st) = Returned e"
      by (simp add: Run_finishes)
    have "exec h sched' st = exec h (sched @ sched') (run_init s)"
      by (simp add: assms(2) exec_append)
    then have "run_inv (exec h sched' st)"
      using reachable_invariants [of h "sched @ sched'" s] by simp
    with ret have "ShutdownCalled \<in> set (run_events (trace (exec h sched' st)))"
      by (auto simp: run_inv_def)
    then show "ShutdownCalled \<in> set (trace (exec h sched' st))"
      by (simp add: run_events_set)
  qed
  have c: "run_events (trace st) = [] \<or> run_events (trace st) = [PromShutdown] \<or>
          run_events (trace st) = [ShutdownCalled] \<or>
          run_events (trace st) = [PromShutdown, ShutdownCalled]"
    using r by (cases "run_pc st") (auto simp: run_inv_def)
  have "(\<exists>e. run_pc st = Returned e) = (ShutdownCalled \<in> set (run_events (trace st)))"
    using r by (cases "run_pc st") (auto simp: run_inv_def)
  then have d: "(\<exists>e. run_pc st = Returned e) = (ShutdownCalled \<in> set (trace st))"
    by (simp add: run_events_set)
  have e: "(promServer (srv st) \<noteq> None) = (MetricsServing \<in> set (trace st))"
    using m by (simp add: metrics_inv_def)
  have f: "PromShutdown \<in> set (trace st) \<longrightarrow> MetricsServing \<in> set (trace st)"
    using m by (auto simp: metrics_inv_def)
  from a b c d e f show ?thesis
    by blast
qed

theorem Run_shuts_down_witness:
  "promServer example_server = None \<and>
   sends (trace (exec departing_host watchdog_wins (run_init example_server))) =
     [Sent WatchdogG (Some ''extension ping failed: broken pipe'')] \<and>
   run_events (trace (exec departing_host watchdog_wins (run_init example_server))) =
     [PromShutdown, ShutdownCalled] \<and>
   run_pc (exec departing_host watchdog_wins (run_init example_server)) =
     Returned (Some ''extension ping failed: broken pipe'') \<and>
   sends (trace (exec departing_host serve_loop_wins (run_init example_server))) =
     [Sent StartG (Some ''accept: use of closed network connection'')] \<and>
   run_events (trace (exec departing_host serve_loop_wins (run_init example_server))) =
     [PromShutdown, ShutdownCalled] \<and>
   run_pc (exec departing_host serve_loop_wins (run_init example_server)) =
     Returned (Some ''accept: use of closed network connection'') \<and>
   run_pc (exec departing_host [StartG, StartG, StartG] (run_init example_server)) =
     Received (Some ''accept: use of closed network connection'') \<and>
   run_pc (exec departing_host [WatchdogG, RunG, WatchdogG, RunG]
     (exec departing_host [StartG, StartG, StartG] (run_init example_server))) =
     Returned (Some ''accept: use of closed network connection'') \<and>
   ShutdownCalled \<in> set (trace (exec departing_host [WatchdogG, RunG, WatchdogG, RunG]
     (exec departing_host [StartG, StartG, StartG] (run_init example_server))))"
proof -
  let ?won = "exec departing_host watchdog_wins (run_init example_server)"
  let ?lost = "exec departing_host serve_loop_wins (run_init example_server)"
  let ?got = "exec departing_host [StartG, StartG, StartG] (run_init example_server)"
  have p: "promServer example_server = None"
    by (simp add: example_server_def)
  note won = Run_shuts_down [OF p, of ?won departing_host watchdog_wins, OF refl]
  note lost = Run_shuts_down [OF p, of ?lost departing_host serve_loop_wins, OF refl]
  note got = Run_shuts_down [OF p, of ?got departing_host "[StartG, StartG, StartG]", OF refl]
  have w: "sends (trace ?won) = [Sent WatchdogG (Some ''extension ping failed: broken pipe'')]"
    "run_events (trace ?won) = [PromShutdown, ShutdownCalled]"
    by (simp_all add: watchdog_wins_run observers)
  have l: "sends (trace ?lost) = [Sent StartG (Some ''accept: use of closed network connection'')]"
    "run_events (trace ?lost) = [PromShutdown, ShutdownCalled]"
    by (simp_all add: serve_loop_wins_run observers)
  have g1: "run_pc ?got = Received (Some ''accept: use of closed network connection'')"
    by (simp add: run_model)
  have g2: "crashed (exec departing_host [WatchdogG, RunG, WatchdogG, RunG] ?got) = None"
    by (simp add: run_model)
  have g3: "steps_left (run_pc ?got) \<le> count_list [WatchdogG, RunG, WatchdogG, RunG] RunG"
    unfolding g1 by simp
  have g4: "received_value (run_pc ?got) = Some (Some ''accept: use of closed network connection'')"
    unfolding g1 by simp
  from got g2 g3 g4 have g5:
    "run_pc (exec departing_host [WatchdogG, RunG, WatchdogG, RunG] ?got) =
       Returned (Some ''accept: use of closed network connection'') \<and>
     ShutdownCalled \<in> set (trace (exec departing_host [WatchdogG, RunG, WatchdogG, RunG] ?got))"
    by blast
  from p w l g1 g5 show ?thesis
    by (simp add: watchdog_wins_run serve_loop_wins_run)
qed

end
